theory Spec2Isabelle
  imports Main "HOL-Library.AList"
begin

section \<open>Data model (types.ts)\<close>

text \<open>
  The string-literal union types of \<^verbatim>\<open>types.ts\<close> become datatypes. The two
  unions \<^verbatim>\<open>AppState\<close> and \<^verbatim>\<open>CampaignStatus\<close> both have a member spelt
  "finished"; the source tells them apart by capitalisation and so do the constructors
  here. The per-recipient outcome \<^verbatim>\<open>'SENT' | 'FAILED' | 'SKIPPED'\<close> of the payload
  shares the word SKIPPED with the status tag, so its constructors carry a suffix.
\<close>

datatype AppState = Idle | WaitingForNext | WaitingForSend | Finished

datatype CampaignStatus = stopped | running | paused | finished

datatype DeliveryStatus = Pending | Delivered | Read

datatype LogStatus = SUCCESS | ERROR | INFO | SKIPPED

datatype Outcome = SENT | FAILED | SKIPPED_outcome

text \<open>A browser \<^verbatim>\<open>File\<close>; only its name is ever read (\<^verbatim>\<open>file?.name\<close>).\<close>

datatype File = File (name: string)

text \<open>
  Numbers entered in the form are taken to be whole seconds (\<open>int\<close>); NaN and
  fractions of the JavaScript number type are outside the model.
\<close>

record CampaignConfig =
  message1 :: string
  file1 :: "File option"
  message2 :: string
  file2 :: "File option"
  numbers :: "string list"
  delayBetween :: int
  sendActionDelay :: int
  monitorNumber :: string
  monitorMessages :: "string list"

text \<open>
  The optional payload \<^verbatim>\<open>data?\<close> of a log entry. Every field of it is optional in
  the source; the fields \<^verbatim>\<open>status\<close>, \<^verbatim>\<open>message\<close> and \<^verbatim>\<open>file\<close> are called
  \<open>outcome\<close>, \<open>body\<close> and \<open>attachment\<close> here: the entry itself has fields of the first
  two names, and the third is a reserved word of the prover.
\<close>

record LogData =
  number :: "string option"
  outcome :: "Outcome option"
  body :: "string option"
  attachment :: "string option"
  deliveryStatus :: "DeliveryStatus option"

record LogEntry =
  timestamp :: string
  message :: string
  status :: LogStatus
  data :: "LogData option"

section \<open>Timers of the event loop\<close>

text \<open>
  \<^verbatim>\<open>setTimeout\<close> registers a callback and returns a handle; \<^verbatim>\<open>clearTimeout\<close>
  unregisters the callback of that handle, and does nothing for a handle whose timer has
  fired or was cleared before. The component arms two kinds of callback: the one of
  \<^verbatim>\<open>processNextNumber\<close>, which calls \<^verbatim>\<open>startSendAction(index)\<close>, and the one of
  \<^verbatim>\<open>startSendAction\<close>, which logs the send of \<^verbatim>\<open>index\<close> and moves on. Both
  capture the number \<open>index\<close> they were armed with.
\<close>

datatype TimerCallback = NextDelay nat | SendDelay nat

record Timer =
  handle :: nat
  callback :: TimerCallback
  delay :: int

section \<open>Component state (App)\<close>

text \<open>
  The \<^verbatim>\<open>useState\<close> cells and the two \<^verbatim>\<open>useRef\<close> cells of \<^verbatim>\<open>App\<close>, together
  with the part of the environment the handlers touch: the timers registered with the
  event loop and not yet fired or cleared (\<open>timers\<close>, oldest first), the next handle
  \<^verbatim>\<open>setTimeout\<close> will return (\<open>nextHandle\<close>; handles are never reused), and the
  reading of the wall clock that \<^verbatim>\<open>new Date().toLocaleTimeString()\<close> returns (\<open>now\<close>).
  A \<^verbatim>\<open>useRef\<close> cell keeps the handle it was given after that timer has fired, exactly
  as in the source, which never resets it on firing. Handles are never null, zero or
  otherwise falsy, so the source's test \<^verbatim>\<open>if (timerRef.current)\<close> is the test that
  the cell is not empty.

  A handler runs against the state of the latest render, and its updates are in place
  before the next event is handled; within one handler every read of a state cell sees
  the value from before the handler, which is how the handlers below are written. The
  timer callbacks read no state cell: they use the index they were armed with, the two
  ref cells and the configuration, which stays as it is during a run.
\<close>

record AppModel =
  config :: CampaignConfig
  appState :: AppState
  campaignStatus :: CampaignStatus
  log :: "LogEntry list"
  currentNumberIndex :: nat
  isConfirmationOpen :: bool
  errors :: "(string \<times> string) list"
  timerRef :: "nat option"
  actionTimerRef :: "nat option"
  timers :: "Timer list"
  nextHandle :: nat
  now :: string

text \<open>The state of a freshly mounted component showing configuration \<open>cfg\<close>.\<close>

definition mounted :: "CampaignConfig \<Rightarrow> string \<Rightarrow> AppModel" where
  "mounted cfg t =
     \<lparr>config = cfg, appState = Idle, campaignStatus = stopped, log = [],
      currentNumberIndex = 0, isConfirmationOpen = False, errors = [],
      timerRef = None, actionTimerRef = None, timers = [], nextHandle = 1, now = t\<rparr>"

subsection \<open>Environment primitives\<close>

definition setTimeout :: "TimerCallback \<Rightarrow> int \<Rightarrow> AppModel \<Rightarrow> nat \<times> AppModel" where
  "setTimeout cb ms s =
     (nextHandle s,
      s\<lparr>timers := timers s @ [\<lparr>handle = nextHandle s, callback = cb, delay = ms\<rparr>],
        nextHandle := Suc (nextHandle s)\<rparr>)"

definition clearTimeout :: "nat \<Rightarrow> AppModel \<Rightarrow> AppModel" where
  "clearTimeout h s = s\<lparr>timers := filter (\<lambda>t. handle t \<noteq> h) (timers s)\<rparr>"

text \<open>
  Array indexing \<^verbatim>\<open>xs[i]\<close> yields \<^verbatim>\<open>undefined\<close> out of range, and a template
  literal prints that as the word "undefined".
\<close>

definition at_index :: "'a list \<Rightarrow> nat \<Rightarrow> 'a option" where
  "at_index xs i = (if i < length xs then Some (xs ! i) else None)"

definition interpolate :: "string option \<Rightarrow> string" where
  "interpolate v = (case v of None \<Rightarrow> ''undefined'' | Some x \<Rightarrow> x)"

subsection \<open>addLog, clearTimers\<close>

definition addLog :: "string \<Rightarrow> LogStatus \<Rightarrow> LogData option \<Rightarrow> AppModel \<Rightarrow> AppModel" where
  "addLog msg st d s =
     s\<lparr>log := \<lparr>timestamp = now s, message = msg, status = st, data = d\<rparr> # log s\<rparr>"

definition clearTimers :: "AppModel \<Rightarrow> AppModel" where
  "clearTimers s =
     (let s1 = (case timerRef s of Some h \<Rightarrow> clearTimeout h s | None \<Rightarrow> s);
          s2 = (case actionTimerRef s1 of Some h \<Rightarrow> clearTimeout h s1 | None \<Rightarrow> s1)
      in s2\<lparr>timerRef := None, actionTimerRef := None\<rparr>)"

subsection \<open>validateConfig, handleStartCampaign\<close>

text \<open>
  \<^verbatim>\<open>String.prototype.trim\<close> strips the white space and line terminators of the
  language from both ends. A string of the model is a list of code units below 256, one
  \<open>char\<close> each; of the characters \<^verbatim>\<open>trim\<close> strips, those in that range are tab,
  line feed, vertical tab, form feed, carriage return, space and the no-break space
  U+00A0. (U+0085 is not among them; the others, from U+1680 on, have no \<open>char\<close>.)
\<close>

definition is_space :: "char \<Rightarrow> bool" where
  "is_space c \<longleftrightarrow>
     c \<in> set [CHR 0x09, CHR 0x0A, CHR 0x0B, CHR 0x0C, CHR 0x0D, CHR '' '', CHR 0xA0]"

definition trim :: "string \<Rightarrow> string" where
  "trim s = rev (dropWhile is_space (rev (dropWhile is_space s)))"

text \<open>
  The regular expression \<^verbatim>\<open>/^\+?\d+$/\<close>: \<open>digits_to_end\<close> is \<^verbatim>\<open>\d+$\<close>, and
  \<open>phone_test\<close> tries it after an optional leading plus sign.
\<close>

definition is_digit :: "char \<Rightarrow> bool" where
  "is_digit c \<longleftrightarrow> c \<in> set ''0123456789''"

fun digits_to_end :: "string \<Rightarrow> bool" where
  "digits_to_end [] = False"
| "digits_to_end [c] = is_digit c"
| "digits_to_end (c # cs) = (is_digit c \<and> digits_to_end cs)"

fun phone_test :: "string \<Rightarrow> bool" where
  "phone_test [] = False"
| "phone_test (c # cs) = (if c = CHR ''+'' then digits_to_end cs else digits_to_end (c # cs))"

definition newErrors :: "CampaignConfig \<Rightarrow> (string \<times> string) list" where
  "newErrors cfg =
     (let e0 = [];
          e1 = (if trim (message1 cfg) = [] \<and> trim (message2 cfg) = []
                then AList.update ''messages'' ''At least one message template is required.'' e0
                else e0);
          e2 = (if length (numbers cfg) = 0
                then AList.update ''numbers'' ''At least one phone number is required.'' e1
                else if list_ex (\<lambda>n. \<not> phone_test n) (numbers cfg)
                then AList.update ''numbers''
                  ''All phone numbers must be in a valid format (e.g., +1234567890 or 1234567890).'' e1
                else e1);
          e3 = (if delayBetween cfg \<le> 0
                then AList.update ''delayBetween'' ''Delay must be a positive number.'' e2
                else e2);
          e4 = (if sendActionDelay cfg \<le> 0
                then AList.update ''sendActionDelay'' ''Action delay must be a positive number.'' e3
                else e3);
          e5 = (if monitorNumber cfg \<noteq> [] \<and> \<not> phone_test (monitorNumber cfg)
                then AList.update ''monitorNumber'' ''Monitor number must be a valid phone number.'' e4
                else e4)
      in e5)"

definition validateConfig :: "AppModel \<Rightarrow> bool \<times> AppModel" where
  "validateConfig s =
     (let es = newErrors (config s) in (length (map fst es) = 0, s\<lparr>errors := es\<rparr>))"

definition handleStartCampaign :: "AppModel \<Rightarrow> AppModel" where
  "handleStartCampaign s =
     (case validateConfig s of
        (ok, s1) \<Rightarrow> if ok then s1\<lparr>isConfirmationOpen := True\<rparr> else s1)"

subsection \<open>The progression: processNextNumber, startSendAction and the timer callbacks\<close>

definition processNextNumber :: "nat \<Rightarrow> AppModel \<Rightarrow> AppModel" where
  "processNextNumber index s =
     (if index \<ge> length (numbers (config s))
      then clearTimers (addLog ''Campaign finished.'' INFO None
             (s\<lparr>appState := Finished, campaignStatus := finished\<rparr>))
      else
        (let s1 = s\<lparr>appState := WaitingForNext\<rparr>;
             ms = (if index = 0 then 0 else delayBetween (config s) * 1000)
         in case setTimeout (NextDelay index) ms s1 of
              (h, s2) \<Rightarrow> s2\<lparr>timerRef := Some h\<rparr>))"

definition startSendAction :: "nat \<Rightarrow> AppModel \<Rightarrow> AppModel" where
  "startSendAction index s =
     (let s1 = s\<lparr>appState := WaitingForSend\<rparr>
      in case setTimeout (SendDelay index) (sendActionDelay (config s) * 1000) s1 of
           (h, s2) \<Rightarrow> s2\<lparr>actionTimerRef := Some h\<rparr>)"

text \<open>
  The body of the arrow function that \<^verbatim>\<open>startSendAction\<close> hands to \<^verbatim>\<open>setTimeout\<close>.
  The monitor message it draws with \<^verbatim>\<open>Math.random\<close> is never used, so the draw has
  no effect on the state.
\<close>

definition sendActionFired :: "nat \<Rightarrow> AppModel \<Rightarrow> AppModel" where
  "sendActionFired index s =
     (let cfg = config s;
          sentNumber = at_index (numbers cfg) index;
          msgIndex = index mod 2;
          msg = (if msgIndex = 0 then message1 cfg else message2 cfg);
          fl = (if msgIndex = 0 then file1 cfg else file2 cfg);
          s1 = addLog (''Message presumed SENT to '' @ interpolate sentNumber @ ''.'') SUCCESS
                 (Some \<lparr>number = sentNumber, outcome = Some SENT, body = Some msg,
                        attachment = map_option name fl, deliveryStatus = Some Pending\<rparr>) s;
          s2 = (if monitorNumber cfg \<noteq> [] \<and> length (monitorMessages cfg) > 0
                then addLog (''Sending monitor message to '' @ monitorNumber cfg) INFO None s1
                else s1);
          nextIndex = index + 1;
          s3 = s2\<lparr>currentNumberIndex := nextIndex\<rparr>
      in processNextNumber nextIndex s3)"

definition runCallback :: "TimerCallback \<Rightarrow> AppModel \<Rightarrow> AppModel" where
  "runCallback cb s =
     (case cb of NextDelay index \<Rightarrow> startSendAction index s
               | SendDelay index \<Rightarrow> sendActionFired index s)"

text \<open>
  The event loop fires the \<open>n\<close>-th registered timer: it leaves the registry and its
  callback runs to completion. A timer that is not registered cannot fire.
\<close>

definition timerFires :: "nat \<Rightarrow> AppModel \<Rightarrow> AppModel" where
  "timerFires n s =
     (if n < length (timers s)
      then runCallback (callback (timers s ! n))
             (s\<lparr>timers := take n (timers s) @ drop (Suc n) (timers s)\<rparr>)
      else s)"

subsection \<open>The operator's handlers\<close>

definition executeStartCampaign :: "AppModel \<Rightarrow> AppModel" where
  "executeStartCampaign s =
     processNextNumber 0
       (addLog ''Campaign started.'' INFO None
          (s\<lparr>log := [], currentNumberIndex := 0, campaignStatus := running\<rparr>))"

definition handleStopCampaign :: "AppModel \<Rightarrow> AppModel" where
  "handleStopCampaign s =
     addLog ''Campaign stopped by user.'' INFO None
       ((clearTimers s)\<lparr>appState := Idle, campaignStatus := stopped\<rparr>)"

definition handlePauseCampaign :: "AppModel \<Rightarrow> AppModel" where
  "handlePauseCampaign s =
     addLog ''Campaign paused.'' INFO None ((clearTimers s)\<lparr>campaignStatus := paused\<rparr>)"

definition handleResumeCampaign :: "AppModel \<Rightarrow> AppModel" where
  "handleResumeCampaign s =
     (let s1 = addLog ''Campaign resumed.'' INFO None (s\<lparr>campaignStatus := running\<rparr>)
      in if appState s = WaitingForNext then processNextNumber (currentNumberIndex s) s1
         else if appState s = WaitingForSend then startSendAction (currentNumberIndex s) s1
         else s1)"

definition handleSkipNumber :: "AppModel \<Rightarrow> AppModel" where
  "handleSkipNumber s =
     (let s1 = (case actionTimerRef s of
                  Some h \<Rightarrow> (clearTimeout h s)\<lparr>actionTimerRef := None\<rparr>
                | None \<Rightarrow> s);
          skippedNumber = at_index (numbers (config s)) (currentNumberIndex s);
          s2 = addLog (''Skipped number: '' @ interpolate skippedNumber) SKIPPED
                 (Some \<lparr>number = skippedNumber, outcome = Some SKIPPED_outcome, body = None,
                        attachment = None, deliveryStatus = None\<rparr>) s1;
          nextIndex = currentNumberIndex s + 1;
          s3 = s2\<lparr>currentNumberIndex := nextIndex\<rparr>
      in processNextNumber nextIndex s3)"

text \<open>
  \<^verbatim>\<open>handleUpdateDeliveryStatus\<close>: \<^verbatim>\<open>newLog[logIndex]\<close> is \<^verbatim>\<open>undefined\<close> for an
  index that is negative or past the end, and then nothing is written.
\<close>

definition updateEntry :: "DeliveryStatus \<Rightarrow> LogEntry \<Rightarrow> LogEntry" where
  "updateEntry newStatus entry =
     (case data entry of
        Some d \<Rightarrow> entry\<lparr>data := Some (d\<lparr>deliveryStatus := Some newStatus\<rparr>)\<rparr>
      | None \<Rightarrow> entry)"

definition updateLog :: "int \<Rightarrow> DeliveryStatus \<Rightarrow> LogEntry list \<Rightarrow> LogEntry list" where
  "updateLog logIndex newStatus prevLog =
     (if 0 \<le> logIndex \<and> nat logIndex < length prevLog
      then prevLog[nat logIndex := updateEntry newStatus (prevLog ! nat logIndex)]
      else prevLog)"

definition handleUpdateDeliveryStatus :: "int \<Rightarrow> DeliveryStatus \<Rightarrow> AppModel \<Rightarrow> AppModel" where
  "handleUpdateDeliveryStatus logIndex newStatus s =
     s\<lparr>log := updateLog logIndex newStatus (log s)\<rparr>"

section \<open>Runs of the component\<close>

text \<open>
  What can happen to the component between renders: a registered timer fires, the
  operator presses one of the four campaign controls, or the wall clock moves on.
  \<open>step\<close> is what the source does on each, with no guard of any kind, as the handlers
  themselves have none.
\<close>

datatype Event = TimerFires nat | Skip | Pause | Resume | Stop | ClockReads string

fun step :: "Event \<Rightarrow> AppModel \<Rightarrow> AppModel" where
  "step (TimerFires n) s = timerFires n s"
| "step Skip s = handleSkipNumber s"
| "step Pause s = handlePauseCampaign s"
| "step Resume s = handleResumeCampaign s"
| "step Stop s = handleStopCampaign s"
| "step (ClockReads t) s = s\<lparr>now := t\<rparr>"

fun exec :: "Event list \<Rightarrow> AppModel \<Rightarrow> AppModel" where
  "exec [] s = s"
| "exec (e # es) s = exec es (step e s)"

text \<open>
  An uninterrupted run: the oldest registered timer fires, \<open>k\<close> times over.
\<close>

fun fires :: "nat \<Rightarrow> AppModel \<Rightarrow> AppModel" where
  "fires 0 s = s"
| "fires (Suc k) s = fires k (timerFires 0 s)"

text \<open>
  The use of the controls that the specification calls valid (its section 4.1): skip
  "only while a send-delay is outstanding (phase==WaitingForSend)", pause "only when
  status==running"; resume is the counterpart of pause, and stop ends a run that is
  under way. A timer fires only while it is registered. The handlers of the source
  have no such guard, and the components that offer the controls to the operator
  (\<^verbatim>\<open>ConfigPanel\<close>, \<^verbatim>\<open>CampaignView\<close>) are not among the source files:
  \<open>permitted\<close> is not part of the model of the code, it is the hypothesis under which
  the amended claims C1, C3 and C7 are stated.
\<close>

definition sendDelayOutstanding :: "AppModel \<Rightarrow> bool" where
  "sendDelayOutstanding s =
     (case actionTimerRef s of
        Some h \<Rightarrow> list_ex (\<lambda>t. handle t = h) (timers s)
      | None \<Rightarrow> False)"

fun permitted :: "Event \<Rightarrow> AppModel \<Rightarrow> bool" where
  "permitted (TimerFires n) s = (n < length (timers s))"
| "permitted Skip s = (appState s = WaitingForSend \<and> sendDelayOutstanding s)"
| "permitted Pause s = (campaignStatus s = running)"
| "permitted Resume s = (campaignStatus s = paused)"
| "permitted Stop s = (campaignStatus s = running \<or> campaignStatus s = paused)"
| "permitted (ClockReads t) s = True"

fun permitted_run :: "Event list \<Rightarrow> AppModel \<Rightarrow> bool" where
  "permitted_run [] s = True"
| "permitted_run (e # es) s = (permitted e s \<and> permitted_run es (step e s))"

text \<open>
  A state in which a campaign can be started: no timer is registered, and the handles
  the two ref cells may still hold were returned by \<^verbatim>\<open>setTimeout\<close> earlier.
\<close>

definition handleIssued :: "nat option \<Rightarrow> nat \<Rightarrow> bool" where
  "handleIssued r n = (case r of Some h \<Rightarrow> h < n | None \<Rightarrow> True)"

definition quiescent :: "AppModel \<Rightarrow> bool" where
  "quiescent s \<longleftrightarrow>
     timers s = [] \<and> handleIssued (timerRef s) (nextHandle s)
     \<and> handleIssued (actionTimerRef s) (nextHandle s)"

section \<open>Concrete configurations\<close>

definition demo3 :: CampaignConfig where
  "demo3 =
     \<lparr>message1 = ''Hello'', file1 = None, message2 = ''Hi'', file2 = Some (File ''b.png''),
      numbers = [''+201'', ''202'', ''203''], delayBetween = 15, sendActionDelay = 5,
      monitorNumber = [], monitorMessages = [''ok'']\<rparr>"

definition demo1 :: CampaignConfig where
  "demo1 =
     \<lparr>message1 = ''Hello'', file1 = None, message2 = [], file2 = None,
      numbers = [''201''], delayBetween = 15, sendActionDelay = 5,
      monitorNumber = [], monitorMessages = []\<rparr>"

text \<open>
  A configuration that validation rejects on four counts; its first template is a
  space, a no-break space and a tab.
\<close>

definition demoBad :: CampaignConfig where
  "demoBad =
     \<lparr>message1 = [CHR '' '', CHR 0xA0, CHR 0x09], file1 = None, message2 = [], file2 = None,
      numbers = [''201'', ''20a''], delayBetween = 0, sendActionDelay = 5,
      monitorNumber = ''+'', monitorMessages = []\<rparr>"

text \<open>
  States of the campaigns: just mounted, just started, the three-recipient campaign
  during the send-delay of its first recipient and paused there, and the one-recipient
  campaign run to its end.
\<close>

definition mounted1 :: AppModel where
  "mounted1 = mounted demo1 ''09:00:00''"

definition started1 :: AppModel where
  "started1 = executeStartCampaign (mounted demo1 ''09:00:00'')"

definition started3 :: AppModel where
  "started3 = executeStartCampaign (mounted demo3 ''09:00:00'')"

definition pausedInSend3 :: AppModel where
  "pausedInSend3 = exec [TimerFires 0, Pause] started3"

definition sending3 :: AppModel where
  "sending3 = exec [TimerFires 0] started3"

definition finished1 :: AppModel where
  "finished1 = fires 2 started1"

section \<open>Vocabulary for stating the effects\<close>

text \<open>The registry after \<^verbatim>\<open>clearTimeout\<close> of whatever handle a ref cell holds.\<close>

definition unregistered :: "nat option \<Rightarrow> Timer list \<Rightarrow> Timer list" where
  "unregistered r ts = filter (\<lambda>t. Some (handle t) \<noteq> r) ts"

text \<open>The log entries the handlers write.\<close>

definition infoEntry :: "string \<Rightarrow> string \<Rightarrow> LogEntry" where
  "infoEntry t m = \<lparr>timestamp = t, message = m, status = INFO, data = None\<rparr>"

definition skipEntry :: "AppModel \<Rightarrow> LogEntry" where
  "skipEntry s =
     \<lparr>timestamp = now s,
      message = ''Skipped number: '' @
                interpolate (at_index (numbers (config s)) (currentNumberIndex s)),
      status = SKIPPED,
      data = Some \<lparr>number = at_index (numbers (config s)) (currentNumberIndex s),
                   outcome = Some SKIPPED_outcome, body = None, attachment = None,
                   deliveryStatus = None\<rparr>\<rparr>"

definition sentEntry :: "nat \<Rightarrow> AppModel \<Rightarrow> LogEntry" where
  "sentEntry i s =
     \<lparr>timestamp = now s,
      message = ''Message presumed SENT to '' @
                interpolate (at_index (numbers (config s)) i) @ ''.'',
      status = SUCCESS,
      data = Some \<lparr>number = at_index (numbers (config s)) i, outcome = Some SENT,
                   body = Some (if i mod 2 = 0 then message1 (config s) else message2 (config s)),
                   attachment = map_option name
                     (if i mod 2 = 0 then file1 (config s) else file2 (config s)),
                   deliveryStatus = Some Pending\<rparr>\<rparr>"

definition monitorEntries :: "AppModel \<Rightarrow> LogEntry list" where
  "monitorEntries s =
     (if monitorNumber (config s) \<noteq> [] \<and> monitorMessages (config s) \<noteq> []
      then [infoEntry (now s) (''Sending monitor message to '' @ monitorNumber (config s))]
      else [])"

text \<open>The timers \<^verbatim>\<open>processNextNumber\<close> and \<^verbatim>\<open>startSendAction\<close> register.\<close>

definition nextTimer :: "CampaignConfig \<Rightarrow> nat \<Rightarrow> nat \<Rightarrow> Timer" where
  "nextTimer cfg i h =
     \<lparr>handle = h, callback = NextDelay i,
      delay = (if i = 0 then 0 else delayBetween cfg * 1000)\<rparr>"

definition sendTimer :: "CampaignConfig \<Rightarrow> nat \<Rightarrow> nat \<Rightarrow> Timer" where
  "sendTimer cfg i h =
     \<lparr>handle = h, callback = SendDelay i, delay = sendActionDelay cfg * 1000\<rparr>"

definition resumedState :: "AppModel \<Rightarrow> AppModel" where
  "resumedState s =
     s\<lparr>campaignStatus := running, log := infoEntry (now s) ''Campaign resumed.'' # log s\<rparr>"

definition startedState :: "AppModel \<Rightarrow> AppModel" where
  "startedState s =
     s\<lparr>log := [infoEntry (now s) ''Campaign started.''], currentNumberIndex := 0,
       campaignStatus := running\<rparr>"

text \<open>
  The shape of the states a campaign passes through while the controls are used only
  where they are permitted: while running exactly one timer is registered, it is the
  one for the current recipient, the slot of the current phase holds its handle and its
  delay is the configured one; otherwise no timer is registered.
\<close>

definition orderly :: "AppModel \<Rightarrow> bool" where
  "orderly s \<longleftrightarrow>
     handleIssued (timerRef s) (nextHandle s) \<and>
     handleIssued (actionTimerRef s) (nextHandle s) \<and>
     (case campaignStatus s of
        running \<Rightarrow>
          currentNumberIndex s < length (numbers (config s)) \<and>
          (\<exists>h. h < nextHandle s \<and>
             (appState s = WaitingForNext \<and> timerRef s = Some h \<and>
              timers s = [nextTimer (config s) (currentNumberIndex s) h]
              \<or>
              appState s = WaitingForSend \<and> actionTimerRef s = Some h \<and>
              timers s = [sendTimer (config s) (currentNumberIndex s) h]))
      | paused \<Rightarrow>
          currentNumberIndex s < length (numbers (config s)) \<and> timers s = [] \<and>
          (appState s = WaitingForNext \<or> appState s = WaitingForSend)
      | stopped \<Rightarrow>
          currentNumberIndex s < length (numbers (config s)) \<and> timers s = [] \<and>
          appState s = Idle
      | finished \<Rightarrow>
          currentNumberIndex s = length (numbers (config s)) \<and> timers s = [] \<and>
          appState s = Finished)"

text \<open>
  The wording of claim C8, to be compared with \<open>trim\<close>, \<open>phone_test\<close> and
  \<open>newErrors\<close> of the source. A template is blank after trimming when it consists
  only of characters that trimming strips; these are given here by their code points
  (9 to 13, 32 and 160), independently of \<open>is_space\<close>. The phone-number pattern is an
  optional plus sign followed by digits, at least one. \<open>spec_rejects\<close> is the list of
  conditions under which a start request is rejected.
\<close>

definition spec_white_space :: "char \<Rightarrow> bool" where
  "spec_white_space c \<longleftrightarrow> (of_char c :: nat) \<in> {9, 10, 11, 12, 13, 32, 160}"

definition spec_blank :: "string \<Rightarrow> bool" where
  "spec_blank s = list_all spec_white_space s"

definition spec_phone_like :: "string \<Rightarrow> bool" where
  "spec_phone_like s =
     (let ds = (case s of [] \<Rightarrow> [] | c # cs \<Rightarrow> if c = CHR ''+'' then cs else s)
      in ds \<noteq> [] \<and> list_all is_digit ds)"

definition spec_rejects :: "CampaignConfig \<Rightarrow> bool" where
  "spec_rejects cfg \<longleftrightarrow>
     (spec_blank (message1 cfg) \<and> spec_blank (message2 cfg))
     \<or> numbers cfg = []
     \<or> list_ex (\<lambda>n. \<not> spec_phone_like n) (numbers cfg)
     \<or> delayBetween cfg \<le> 0
     \<or> sendActionDelay cfg \<le> 0
     \<or> (monitorNumber cfg \<noteq> [] \<and> \<not> spec_phone_like (monitorNumber cfg))"

text \<open>
  Two logs that differ by a block of entries \<open>ins\<close> inserted on top of the common
  \<open>base\<close>, and two orderly states that agree on everything a handler reads except the
  handles of their timers and such a block in the log.
\<close>

definition spliced :: "'a list \<Rightarrow> 'a list \<Rightarrow> 'a list \<Rightarrow> 'a list \<Rightarrow> bool" where
  "spliced base ins l l' \<longleftrightarrow> (\<exists>new. l = new @ base \<and> l' = new @ ins @ base)"

definition twin :: "LogEntry list \<Rightarrow> LogEntry list \<Rightarrow> AppModel \<Rightarrow> AppModel \<Rightarrow> bool" where
  "twin base ins s s' \<longleftrightarrow>
     orderly s \<and> orderly s' \<and> config s' = config s \<and> appState s' = appState s \<and>
     campaignStatus s' = campaignStatus s \<and> currentNumberIndex s' = currentNumberIndex s \<and>
     now s' = now s \<and> spliced base ins (log s) (log s')"

section \<open>The handlers in closed form\<close>

lemma unregistered_simps [simp]:
  "unregistered None ts = ts"
  "unregistered r [] = []"
  "unregistered r (t # ts) =
     (if r = Some (handle t) then unregistered r ts else t # unregistered r ts)"
  by (auto simp: unregistered_def)

lemma unregistered_append [simp]:
  "unregistered r (ts @ us) = unregistered r ts @ unregistered r us"
  by (simp add: unregistered_def)

lemma set_unregistered: "set (unregistered r ts) \<subseteq> set ts"
  by (auto simp: unregistered_def)

lemma handleIssued_simps [simp]:
  "handleIssued None n"
  "handleIssued (Some h) n \<longleftrightarrow> h < n"
  by (simp_all add: handleIssued_def)

lemma handleIssued_Suc: "handleIssued r n \<Longrightarrow> handleIssued r (Suc n)"
  by (cases r) simp_all

lemma timer_simps [simp]:
  "handle (nextTimer cfg i h) = h" "callback (nextTimer cfg i h) = NextDelay i"
  "handle (sendTimer cfg i h) = h" "callback (sendTimer cfg i h) = SendDelay i"
  by (simp_all add: nextTimer_def sendTimer_def)

lemma clearTimeout_eq: "clearTimeout h s = s\<lparr>timers := unregistered (Some h) (timers s)\<rparr>"
  by (simp add: clearTimeout_def unregistered_def)

lemma clearTimers_eq:
  "clearTimers s =
     s\<lparr>timers := unregistered (actionTimerRef s) (unregistered (timerRef s) (timers s)),
       timerRef := None, actionTimerRef := None\<rparr>"
  by (cases "timerRef s"; cases "actionTimerRef s")
     (simp_all add: clearTimers_def clearTimeout_eq del: unregistered_simps(3))

lemma processNextNumber_finish:
  "length (numbers (config s)) \<le> i \<Longrightarrow>
   processNextNumber i s =
     s\<lparr>appState := Finished, campaignStatus := finished,
       log := infoEntry (now s) ''Campaign finished.'' # log s,
       timers := unregistered (actionTimerRef s) (unregistered (timerRef s) (timers s)),
       timerRef := None, actionTimerRef := None\<rparr>"
  by (intro AppModel.equality)
     (simp_all add: processNextNumber_def clearTimers_eq addLog_def infoEntry_def)

lemma processNextNumber_arm:
  "i < length (numbers (config s)) \<Longrightarrow>
   processNextNumber i s =
     s\<lparr>appState := WaitingForNext, timers := timers s @ [nextTimer (config s) i (nextHandle s)],
       nextHandle := Suc (nextHandle s), timerRef := Some (nextHandle s)\<rparr>"
  by (intro AppModel.equality) (simp_all add: processNextNumber_def setTimeout_def nextTimer_def)

lemma startSendAction_eq:
  "startSendAction i s =
     s\<lparr>appState := WaitingForSend, timers := timers s @ [sendTimer (config s) i (nextHandle s)],
       nextHandle := Suc (nextHandle s), actionTimerRef := Some (nextHandle s)\<rparr>"
  by (intro AppModel.equality) (simp_all add: startSendAction_def setTimeout_def sendTimer_def)

lemma handleSkipNumber_eq:
  "handleSkipNumber s =
     processNextNumber (Suc (currentNumberIndex s))
       (s\<lparr>timers := unregistered (actionTimerRef s) (timers s), actionTimerRef := None,
          log := skipEntry s # log s, currentNumberIndex := Suc (currentNumberIndex s)\<rparr>)"
  unfolding handleSkipNumber_def Let_def
  by (rule arg_cong2 [where f = processNextNumber], simp, intro AppModel.equality)
     (simp_all add: addLog_def clearTimeout_eq skipEntry_def split: option.splits)

lemma sendActionFired_eq:
  "sendActionFired i s =
     processNextNumber (Suc i)
       (s\<lparr>log := monitorEntries s @ sentEntry i s # log s, currentNumberIndex := Suc i\<rparr>)"
  unfolding sendActionFired_def Let_def
  by (rule arg_cong2 [where f = processNextNumber], simp, intro AppModel.equality)
     (simp_all add: addLog_def sentEntry_def monitorEntries_def infoEntry_def)

lemma handleStopCampaign_eq:
  "handleStopCampaign s =
     s\<lparr>appState := Idle, campaignStatus := stopped,
       log := infoEntry (now s) ''Campaign stopped by user.'' # log s,
       timers := unregistered (actionTimerRef s) (unregistered (timerRef s) (timers s)),
       timerRef := None, actionTimerRef := None\<rparr>"
  by (intro AppModel.equality)
     (simp_all add: handleStopCampaign_def clearTimers_eq addLog_def infoEntry_def)

lemma handlePauseCampaign_eq:
  "handlePauseCampaign s =
     s\<lparr>campaignStatus := paused,
       log := infoEntry (now s) ''Campaign paused.'' # log s,
       timers := unregistered (actionTimerRef s) (unregistered (timerRef s) (timers s)),
       timerRef := None, actionTimerRef := None\<rparr>"
  by (intro AppModel.equality)
     (simp_all add: handlePauseCampaign_def clearTimers_eq addLog_def infoEntry_def)

lemma handleResumeCampaign_eq:
  "handleResumeCampaign s =
     (if appState s = WaitingForNext
      then processNextNumber (currentNumberIndex s) (resumedState s)
      else if appState s = WaitingForSend
      then startSendAction (currentNumberIndex s) (resumedState s)
      else resumedState s)"
proof -
  have "addLog ''Campaign resumed.'' INFO None (s\<lparr>campaignStatus := running\<rparr>) = resumedState s"
    by (intro AppModel.equality) (simp_all add: addLog_def resumedState_def infoEntry_def)
  then show ?thesis by (simp add: handleResumeCampaign_def)
qed

lemma executeStartCampaign_eq:
  "executeStartCampaign s = processNextNumber 0 (startedState s)"
  unfolding executeStartCampaign_def
  by (rule arg_cong [where f = "processNextNumber _"], intro AppModel.equality)
     (simp_all add: addLog_def infoEntry_def startedState_def)

section \<open>Orderly states\<close>

lemma orderly_running:
  assumes "orderly s" "campaignStatus s = running"
  obtains (waitingNext) h where
      "appState s = WaitingForNext" "timerRef s = Some h" "h < nextHandle s"
      "timers s = [nextTimer (config s) (currentNumberIndex s) h]"
      "currentNumberIndex s < length (numbers (config s))"
      "handleIssued (actionTimerRef s) (nextHandle s)"
  | (waitingSend) h where
      "appState s = WaitingForSend" "actionTimerRef s = Some h" "h < nextHandle s"
      "timers s = [sendTimer (config s) (currentNumberIndex s) h]"
      "currentNumberIndex s < length (numbers (config s))"
      "handleIssued (timerRef s) (nextHandle s)"
  using assms by (auto simp: orderly_def)

lemma orderly_not_running:
  assumes "orderly s" "campaignStatus s \<noteq> running"
  shows "timers s = []"
  using assms by (cases "campaignStatus s") (auto simp: orderly_def)

lemma orderly_paused:
  assumes "orderly s" "campaignStatus s = paused"
  shows "timers s = [] \<and> currentNumberIndex s < length (numbers (config s))
         \<and> (appState s = WaitingForNext \<or> appState s = WaitingForSend)
         \<and> handleIssued (timerRef s) (nextHandle s)
         \<and> handleIssued (actionTimerRef s) (nextHandle s)"
  using assms by (auto simp: orderly_def)

lemma orderly_start: "quiescent s \<Longrightarrow> orderly (executeStartCampaign s)"
  by (cases "numbers (config s) = []")
     (auto simp: executeStartCampaign_eq startedState_def processNextNumber_finish
        processNextNumber_arm quiescent_def orderly_def intro: handleIssued_Suc)

lemma orderly_fire:
  assumes "orderly s" "n < length (timers s)"
  shows "orderly (timerFires n s)"
proof -
  from assms have run: "campaignStatus s = running"
    using orderly_not_running by fastforce
  from assms(1) run show ?thesis
  proof (cases rule: orderly_running)
    case (waitingNext h)
    with assms(2) have "n = 0" by simp
    with waitingNext run show ?thesis
      by (simp add: timerFires_def runCallback_def startSendAction_eq orderly_def handleIssued_Suc)
  next
    case (waitingSend h)
    with assms(2) have n0: "n = 0" by simp
    show ?thesis
    proof (cases "Suc (currentNumberIndex s) < length (numbers (config s))")
      case True
      then show ?thesis using waitingSend run n0
        by (simp add: timerFires_def runCallback_def sendActionFired_eq processNextNumber_arm
              orderly_def handleIssued_Suc)
    next
      case False
      then show ?thesis using waitingSend run n0
        by (simp add: timerFires_def runCallback_def sendActionFired_eq
              processNextNumber_finish orderly_def)
    qed
  qed
qed

lemma orderly_skip:
  assumes "orderly s" "permitted Skip s"
  shows "orderly (handleSkipNumber s)"
proof -
  from assms(2) have ws: "appState s = WaitingForSend" and out: "sendDelayOutstanding s"
    by auto
  from out have "timers s \<noteq> []"
    by (auto simp: sendDelayOutstanding_def split: option.splits)
  with assms(1) have run: "campaignStatus s = running"
    using orderly_not_running by blast
  from assms(1) run show ?thesis
  proof (cases rule: orderly_running)
    case (waitingNext h)
    with ws show ?thesis by simp
  next
    case (waitingSend h)
    show ?thesis
    proof (cases "Suc (currentNumberIndex s) < length (numbers (config s))")
      case True
      then show ?thesis using waitingSend run
        by (simp add: handleSkipNumber_eq processNextNumber_arm orderly_def handleIssued_Suc)
    next
      case False
      then show ?thesis using waitingSend run
        by (simp add: handleSkipNumber_eq processNextNumber_finish orderly_def)
    qed
  qed
qed

lemma orderly_pause:
  assumes "orderly s" "permitted Pause s"
  shows "orderly (handlePauseCampaign s)"
proof -
  from assms(2) have run: "campaignStatus s = running" by simp
  from assms(1) run show ?thesis
    by (cases rule: orderly_running)
       (simp_all add: handlePauseCampaign_eq orderly_def)
qed

lemma orderly_stop:
  assumes "orderly s" "permitted Stop s"
  shows "orderly (handleStopCampaign s)"
proof (cases "campaignStatus s = running")
  case True
  with assms(1) show ?thesis
    by (cases rule: orderly_running)
       (simp_all add: handleStopCampaign_eq orderly_def)
next
  case False
  with assms(2) have "campaignStatus s = paused" by simp
  from orderly_paused [OF assms(1) this] show ?thesis
    by (simp add: handleStopCampaign_eq orderly_def)
qed

lemma orderly_resume:
  assumes "orderly s" "permitted Resume s"
  shows "orderly (handleResumeCampaign s)"
proof -
  from assms(2) have p: "campaignStatus s = paused" by simp
  note f = orderly_paused [OF assms(1) p]
  from f have "appState s = WaitingForNext \<or> appState s = WaitingForSend" by simp
  then show ?thesis
  proof
    assume "appState s = WaitingForNext"
    with f show ?thesis
      by (simp add: handleResumeCampaign_eq resumedState_def processNextNumber_arm orderly_def handleIssued_Suc)
  next
    assume "appState s = WaitingForSend"
    with f show ?thesis
      by (simp add: handleResumeCampaign_eq resumedState_def startSendAction_eq orderly_def handleIssued_Suc)
  qed
qed

lemma orderly_clock: "orderly s \<Longrightarrow> orderly (s\<lparr>now := t\<rparr>)"
  by (cases "campaignStatus s") (simp_all add: orderly_def)

lemma orderly_step: "orderly s \<Longrightarrow> permitted e s \<Longrightarrow> orderly (step e s)"
  by (cases e)
     (simp_all add: orderly_fire orderly_skip orderly_pause orderly_stop orderly_resume
        orderly_clock)

lemma orderly_exec: "orderly s \<Longrightarrow> permitted_run es s \<Longrightarrow> orderly (exec es s)"
  by (induction es arbitrary: s) (simp_all add: orderly_step)

lemma orderly_position:
  assumes "orderly s"
  shows "currentNumberIndex s \<le> length (numbers (config s))
         \<and> (currentNumberIndex s = length (numbers (config s)) \<longrightarrow> appState s = Finished)"
  using assms by (cases "campaignStatus s") (auto simp: orderly_def)

section \<open>C1: the position invariant\<close>

text \<open>
  C1 as stated quantifies over any sequence of timer fires, skip, pause, resume and
  stop. The handlers carry no guard, so the operator's controls can be pressed in any
  state: a campaign with one recipient that has run to its end and is then stopped
  has position \<open>1 = len(recipients)\<close> and phase \<open>Idle\<close>.
\<close>

theorem position_invariant_counterexample:
  "currentNumberIndex
     (exec [TimerFires 0, TimerFires 0, Stop] (executeStartCampaign (mounted demo1 ''09:00:00'')))
   = length (numbers (config
       (exec [TimerFires 0, TimerFires 0, Stop]
          (executeStartCampaign (mounted demo1 ''09:00:00'')))))
   \<and> appState
       (exec [TimerFires 0, TimerFires 0, Stop] (executeStartCampaign (mounted demo1 ''09:00:00'')))
     = Idle"
  by code_simp

text \<open>
  C1 (amended): in every state reached from a started campaign by timer fires and by
  controls used only where they are permitted (skip while the send-delay is
  outstanding, pause while running, resume while paused, stop while running or
  paused), \<open>0 \<le> position \<le> len(recipients)\<close>, and \<open>position = len(recipients)\<close> implies
  phase \<open>Finished\<close>. The position is a natural number, so its lower bound is in its type.
\<close>

theorem position_invariant_permitted:
  assumes "quiescent s0" and "permitted_run es (executeStartCampaign s0)"
  shows "currentNumberIndex (exec es (executeStartCampaign s0))
           \<le> length (numbers (config (exec es (executeStartCampaign s0))))
         \<and> (currentNumberIndex (exec es (executeStartCampaign s0))
              = length (numbers (config (exec es (executeStartCampaign s0))))
            \<longrightarrow> appState (exec es (executeStartCampaign s0)) = Finished)"
  using assms by (intro orderly_position orderly_exec orderly_start)

text \<open>
  The amended C1 on a run of the three-recipient campaign that pauses, resumes, skips
  the first recipient, sends to the second, and is paused and stopped while waiting for
  the third.
\<close>

theorem position_invariant_permitted_witness:
  "quiescent (mounted demo3 ''09:00:00'')
   \<and> permitted_run [TimerFires 0, Pause, Resume, Skip, TimerFires 0, TimerFires 0, Pause, Stop]
        (executeStartCampaign (mounted demo3 ''09:00:00''))
   \<and> currentNumberIndex
        (exec [TimerFires 0, Pause, Resume, Skip, TimerFires 0, TimerFires 0, Pause, Stop]
           (executeStartCampaign (mounted demo3 ''09:00:00''))) \<le> 3"
proof -
  have q: "quiescent (mounted demo3 ''09:00:00'')"
    by code_simp
  have p: "permitted_run
             [TimerFires 0, Pause, Resume, Skip, TimerFires 0, TimerFires 0, Pause, Stop]
             (executeStartCampaign (mounted demo3 ''09:00:00''))"
    by code_simp
  have c: "length (numbers (config
             (exec [TimerFires 0, Pause, Resume, Skip, TimerFires 0, TimerFires 0, Pause, Stop]
                (executeStartCampaign (mounted demo3 ''09:00:00''))))) = 3"
    by code_simp
  from position_invariant_permitted [OF q p] q p c show ?thesis by simp
qed

section \<open>C2: skip outside the send-delay\<close>

text \<open>
  C2 as stated makes skip a no-op while the phase is \<open>WaitingForNext\<close>.
  \<^verbatim>\<open>handleSkipNumber\<close> does not look at the phase: on the campaign that has just
  been started and waits for its first recipient it writes a SKIPPED entry and moves
  the position from 0 to 1.
\<close>

theorem skip_while_waiting_for_next_counterexample:
  "appState started3 = WaitingForNext
   \<and> currentNumberIndex started3 = 0
   \<and> currentNumberIndex (handleSkipNumber started3) = 1
   \<and> map status (log (handleSkipNumber started3))
       = [SKIPPED, INFO]"
  by code_simp

text \<open>
  C2 (amended): skip has its effect in every phase, \<open>WaitingForNext\<close> included. It
  cancels the timer whose handle the send-delay slot holds, if any, emits a SKIPPED
  entry for the current recipient, sets position to position+1 and calls
  advance(position+1), which either arms a next-delay timer for the new position or, at
  the end of the list, finishes the campaign. A next-delay timer that is registered
  is cancelled only in the second case.
\<close>

theorem skip_effect_in_every_phase:
  "currentNumberIndex (handleSkipNumber s) = Suc (currentNumberIndex s)
   \<and> log (handleSkipNumber s) =
       (if Suc (currentNumberIndex s) < length (numbers (config s)) then []
        else [infoEntry (now s) ''Campaign finished.'']) @ skipEntry s # log s
   \<and> appState (handleSkipNumber s) =
       (if Suc (currentNumberIndex s) < length (numbers (config s)) then WaitingForNext
        else Finished)
   \<and> timers (handleSkipNumber s) =
       (if Suc (currentNumberIndex s) < length (numbers (config s))
        then unregistered (actionTimerRef s) (timers s)
             @ [nextTimer (config s) (Suc (currentNumberIndex s)) (nextHandle s)]
        else unregistered (timerRef s) (unregistered (actionTimerRef s) (timers s)))"
proof (cases "Suc (currentNumberIndex s) < length (numbers (config s))")
  case True
  then show ?thesis
    by (simp add: handleSkipNumber_eq processNextNumber_arm)
next
  case False
  then show ?thesis
    by (simp add: handleSkipNumber_eq processNextNumber_finish)
qed

section \<open>C3: one timer at a time, and no callback of a cancelled timer\<close>

text \<open>
  A handle that has been issued and is not registered (its timer has fired or was
  cleared) is never registered again, whatever happens next: every handler only
  removes timers or registers one under a fresh handle.
\<close>

lemma stale_unregistered:
  "h \<notin> handle ` set ts \<Longrightarrow> h \<notin> handle ` set (unregistered r ts)"
  using set_unregistered by fastforce

lemma stale_processNextNumber:
  assumes "h < nextHandle s" "h \<notin> handle ` set (timers s)"
  shows "h \<notin> handle ` set (timers (processNextNumber i s)) \<and> h < nextHandle (processNextNumber i s)"
proof (cases "i < length (numbers (config s))")
  case True
  with assms show ?thesis by (auto simp: processNextNumber_arm)
next
  case False
  with assms show ?thesis by (simp add: processNextNumber_finish stale_unregistered)
qed

lemma stale_startSendAction:
  assumes "h < nextHandle s" "h \<notin> handle ` set (timers s)"
  shows "h \<notin> handle ` set (timers (startSendAction i s)) \<and> h < nextHandle (startSendAction i s)"
  using assms by (auto simp: startSendAction_eq)

lemma stale_timerFires:
  assumes "h < nextHandle s" "h \<notin> handle ` set (timers s)"
  shows "h \<notin> handle ` set (timers (timerFires n s)) \<and> h < nextHandle (timerFires n s)"
proof (cases "n < length (timers s)")
  case False
  with assms show ?thesis by (simp add: timerFires_def)
next
  case True
  let ?s = "s\<lparr>timers := take n (timers s) @ drop (Suc n) (timers s)\<rparr>"
  have "set (timers ?s) \<subseteq> set (timers s)"
    using set_take_subset set_drop_subset by fastforce
  with assms have a: "h < nextHandle ?s" "h \<notin> handle ` set (timers ?s)" by auto
  show ?thesis
  proof (cases "callback (timers s ! n)")
    case (NextDelay i)
    with True stale_startSendAction [OF a] show ?thesis
      by (simp add: timerFires_def runCallback_def)
  next
    case (SendDelay i)
    let ?t = "?s\<lparr>log := monitorEntries ?s @ sentEntry i ?s # log ?s, currentNumberIndex := Suc i\<rparr>"
    from a have "h < nextHandle ?t" "h \<notin> handle ` set (timers ?t)" by simp_all
    from stale_processNextNumber [OF this] SendDelay True show ?thesis
      by (simp add: timerFires_def runCallback_def sendActionFired_eq)
  qed
qed

lemma stale_skip:
  assumes "h < nextHandle s" "h \<notin> handle ` set (timers s)"
  shows "h \<notin> handle ` set (timers (handleSkipNumber s)) \<and> h < nextHandle (handleSkipNumber s)"
proof -
  let ?t = "s\<lparr>timers := unregistered (actionTimerRef s) (timers s), actionTimerRef := None,
          log := skipEntry s # log s, currentNumberIndex := Suc (currentNumberIndex s)\<rparr>"
  from assms have "h < nextHandle ?t" "h \<notin> handle ` set (timers ?t)"
    by (simp_all add: stale_unregistered)
  from stale_processNextNumber [OF this] show ?thesis
    by (simp add: handleSkipNumber_eq)
qed

lemma stale_resume:
  assumes "h < nextHandle s" "h \<notin> handle ` set (timers s)"
  shows "h \<notin> handle ` set (timers (handleResumeCampaign s))
         \<and> h < nextHandle (handleResumeCampaign s)"
proof -
  from assms have a: "h < nextHandle (resumedState s)" "h \<notin> handle ` set (timers (resumedState s))"
    by (simp_all add: resumedState_def)
  from a stale_processNextNumber [OF a] stale_startSendAction [OF a] show ?thesis
    by (simp add: handleResumeCampaign_eq)
qed

lemma stale_step:
  assumes "h < nextHandle s" "h \<notin> handle ` set (timers s)"
  shows "h \<notin> handle ` set (timers (step e s)) \<and> h < nextHandle (step e s)"
proof (cases e)
  case (TimerFires n)
  with stale_timerFires [OF assms] show ?thesis by simp
next
  case Skip
  with stale_skip [OF assms] show ?thesis by simp
next
  case Pause
  with assms show ?thesis by (simp add: handlePauseCampaign_eq stale_unregistered)
next
  case Resume
  with stale_resume [OF assms] show ?thesis by simp
next
  case Stop
  with assms show ?thesis by (simp add: handleStopCampaign_eq stale_unregistered)
next
  case (ClockReads t)
  with assms show ?thesis by simp
qed

lemma stale_exec:
  "h < nextHandle s \<Longrightarrow> h \<notin> handle ` set (timers s) \<Longrightarrow>
   h \<notin> handle ` set (timers (exec es s)) \<and> h < nextHandle (exec es s)"
  by (induction es arbitrary: s) (simp_all add: stale_step)

lemma orderly_timers:
  assumes "orderly s"
  shows "length (timers s) \<le> 1
         \<and> (\<forall>t\<in>set (timers s). campaignStatus s = running \<and>
              (callback t = NextDelay (currentNumberIndex s) \<and> appState s = WaitingForNext
                 \<and> timerRef s = Some (handle t)
               \<or> callback t = SendDelay (currentNumberIndex s) \<and> appState s = WaitingForSend
                 \<and> actionTimerRef s = Some (handle t)))"
proof (cases "campaignStatus s = running")
  case True
  with assms show ?thesis
  proof (cases rule: orderly_running)
    case (waitingNext h)
    with True show ?thesis by simp
  next
    case (waitingSend h)
    with True show ?thesis by simp
  qed
next
  case False
  with assms orderly_not_running show ?thesis by simp
qed

lemma orderly_cancel:
  assumes "orderly s" "e = Stop \<or> e = Pause \<or> e = Skip" "permitted e s"
  shows "\<forall>t\<in>set (timers (step e s)). nextHandle s \<le> handle t"
proof (cases "campaignStatus s = running")
  case False
  with assms orderly_not_running [of s] have "timers s = []" by simp
  moreover from this assms(2,3) have "e \<noteq> Skip"
    by (auto simp: sendDelayOutstanding_def split: option.splits)
  ultimately show ?thesis using assms(2)
    by (auto simp: handleStopCampaign_eq handlePauseCampaign_eq)
next
  case True
  with assms(1) show ?thesis
  proof (cases rule: orderly_running)
    case (waitingNext h)
    with assms(2,3) show ?thesis
      by (auto simp: handleStopCampaign_eq handlePauseCampaign_eq split: if_splits)
  next
    case (waitingSend h)
    show ?thesis
    proof (cases "Suc (currentNumberIndex s) < length (numbers (config s))")
      case True
      with waitingSend assms(2,3) show ?thesis
        by (auto simp: handleStopCampaign_eq handlePauseCampaign_eq handleSkipNumber_eq
              processNextNumber_arm split: if_splits)
    next
      case False
      with waitingSend assms(2,3) show ?thesis
        by (auto simp: handleStopCampaign_eq handlePauseCampaign_eq handleSkipNumber_eq
              processNextNumber_finish split: if_splits)
    qed
  qed
qed

text \<open>
  C3 as stated holds "at every point during a campaign run". Pressing skip while the
  next-delay of the first recipient is outstanding leaves that timer registered and
  arms a second one; when the first fires, both slots hold the handle of a registered
  timer.
\<close>

theorem two_timers_counterexample:
  "timers (exec [Skip, TimerFires 0] started3)
     = [\<lparr>handle = 2, callback = NextDelay 1, delay = 15000\<rparr>,
        \<lparr>handle = 3, callback = SendDelay 0, delay = 5000\<rparr>]
   \<and> timerRef (exec [Skip, TimerFires 0] started3)
     = Some 2
   \<and> actionTimerRef (exec [Skip, TimerFires 0] started3)
     = Some 3"
  by code_simp

text \<open>
  C3 (amended): in every state reached from a started campaign by timer fires and by
  controls used only where they are permitted, at most one timer is registered; it is
  the one of the current phase and recipient and its handle is in the slot of that
  phase. A permitted stop, pause or skip leaves no timer registered that was registered
  before it, and a handle that is no longer registered is never registered again, so
  that the callback of a cancelled timer never runs.
\<close>

theorem one_timer_and_no_stale_callback:
  assumes "quiescent s0" and "permitted_run es (executeStartCampaign s0)"
    and "s = exec es (executeStartCampaign s0)"
  shows "length (timers s) \<le> 1
     \<and> (\<forall>t\<in>set (timers s). campaignStatus s = running \<and>
          (callback t = NextDelay (currentNumberIndex s) \<and> appState s = WaitingForNext
             \<and> timerRef s = Some (handle t)
           \<or> callback t = SendDelay (currentNumberIndex s) \<and> appState s = WaitingForSend
             \<and> actionTimerRef s = Some (handle t)))
     \<and> (\<forall>e. (e = Stop \<or> e = Pause \<or> e = Skip) \<and> permitted e s \<longrightarrow>
          (\<forall>t\<in>set (timers (step e s)). nextHandle s \<le> handle t))
     \<and> (\<forall>h later. h < nextHandle s \<and> h \<notin> handle ` set (timers s) \<longrightarrow>
          h \<notin> handle ` set (timers (exec later s)))"
proof -
  from assms have o: "orderly s"
    by (simp add: orderly_exec orderly_start)
  from orderly_timers [OF o] orderly_cancel [OF o] stale_exec [of _ s]
  show ?thesis by blast
qed

text \<open>
  The amended C3 on the three-recipient campaign paused and resumed during its first
  send-delay: the send timer that pause cancelled had handle 2, and it is not registered
  after two further timer fires.
\<close>

theorem one_timer_and_no_stale_callback_witness:
  "quiescent (mounted demo3 ''09:00:00'')
   \<and> permitted_run [TimerFires 0, Pause, Resume] (executeStartCampaign (mounted demo3 ''09:00:00''))
   \<and> length (timers (exec [TimerFires 0, Pause, Resume]
                (executeStartCampaign (mounted demo3 ''09:00:00'')))) \<le> 1
   \<and> 2 < nextHandle (exec [TimerFires 0, Pause, Resume]
                (executeStartCampaign (mounted demo3 ''09:00:00'')))
   \<and> 2 \<notin> handle ` set (timers (exec [TimerFires 0, Pause, Resume]
                (executeStartCampaign (mounted demo3 ''09:00:00''))))
   \<and> 2 \<notin> handle ` set (timers (exec [TimerFires 0, TimerFires 0]
                (exec [TimerFires 0, Pause, Resume]
                   (executeStartCampaign (mounted demo3 ''09:00:00'')))))"
proof -
  have q: "quiescent (mounted demo3 ''09:00:00'')"
    by code_simp
  have p: "permitted_run [TimerFires 0, Pause, Resume]
             (executeStartCampaign (mounted demo3 ''09:00:00''))"
    by code_simp
  have a: "2 < nextHandle (exec [TimerFires 0, Pause, Resume]
                (executeStartCampaign (mounted demo3 ''09:00:00'')))
     \<and> 2 \<notin> handle ` set (timers (exec [TimerFires 0, Pause, Resume]
                (executeStartCampaign (mounted demo3 ''09:00:00''))))"
    by code_simp
  from one_timer_and_no_stale_callback [OF q p refl] q p a show ?thesis
    by blast
qed

section \<open>C4: pause\<close>

text \<open>
  C4 as stated makes pause a no-op unless the status is \<open>running\<close>.
  \<^verbatim>\<open>handlePauseCampaign\<close> does not look at the status: on the freshly mounted
  component, whose status is \<open>stopped\<close>, it sets the status to \<open>paused\<close> and writes
  a log entry.
\<close>

theorem pause_when_stopped_counterexample:
  "campaignStatus mounted1 = stopped
   \<and> campaignStatus (handlePauseCampaign mounted1) = paused
   \<and> log mounted1 = []
   \<and> log (handlePauseCampaign mounted1)
       = [\<lparr>timestamp = ''09:00:00'', message = ''Campaign paused.'', status = INFO, data = None\<rparr>]"
  by code_simp

text \<open>
  C4 (amended): in every status, pause cancels the timers whose handles the two slots
  hold and empties the slots, leaves the phase (and everything else) unchanged, sets
  the status to \<open>paused\<close> and emits an INFO "Campaign paused." entry.
\<close>

theorem pause_in_every_status:
  "handlePauseCampaign s =
     s\<lparr>campaignStatus := paused,
       log := \<lparr>timestamp = now s, message = ''Campaign paused.'', status = INFO, data = None\<rparr>
                # log s,
       timers := filter (\<lambda>t. Some (handle t) \<noteq> timerRef s \<and> Some (handle t) \<noteq> actionTimerRef s)
                   (timers s),
       timerRef := None, actionTimerRef := None\<rparr>"
  by (intro AppModel.equality)
     (simp_all add: handlePauseCampaign_eq infoEntry_def unregistered_def conj_commute)

section \<open>C5: resume\<close>

text \<open>
  C5 as stated makes resume a no-op while the phase is \<open>Idle\<close> or \<open>Finished\<close>.
  \<^verbatim>\<open>handleResumeCampaign\<close> sets the status and writes its log entry before it looks
  at the phase: on the freshly mounted component (phase \<open>Idle\<close>, status \<open>stopped\<close>)
  the status becomes \<open>running\<close> and the log gains an entry.
\<close>

theorem resume_when_idle_counterexample:
  "appState mounted1 = Idle
   \<and> campaignStatus mounted1 = stopped
   \<and> campaignStatus (handleResumeCampaign mounted1) = running
   \<and> log mounted1 = []
   \<and> log (handleResumeCampaign mounted1)
       = [\<lparr>timestamp = ''09:00:00'', message = ''Campaign resumed.'', status = INFO, data = None\<rparr>]"
  by code_simp

text \<open>
  C5 (amended): resume always sets the status to \<open>running\<close> and emits an INFO
  "Campaign resumed." entry. In phase \<open>Idle\<close> or \<open>Finished\<close> it does nothing else.
  In phase \<open>WaitingForNext\<close>, with the position inside the recipient list, it
  registers a new next-delay timer for the position with the delay advance(position)
  uses, which is 0 at position 0 and the full \<open>delayBetween\<close> otherwise; in phase
  \<open>WaitingForSend\<close> it registers a new send-delay timer for the position with the
  full \<open>sendActionDelay\<close>. It cancels no timer.
\<close>

theorem resume_effect:
  "(appState s = Idle \<or> appState s = Finished \<longrightarrow>
      handleResumeCampaign s =
        s\<lparr>campaignStatus := running,
          log := infoEntry (now s) ''Campaign resumed.'' # log s\<rparr>)
   \<and> (appState s = WaitingForNext \<and> currentNumberIndex s < length (numbers (config s)) \<longrightarrow>
      handleResumeCampaign s =
        s\<lparr>campaignStatus := running,
          log := infoEntry (now s) ''Campaign resumed.'' # log s,
          timers := timers s @
            [\<lparr>handle = nextHandle s, callback = NextDelay (currentNumberIndex s),
              delay = (if currentNumberIndex s = 0 then 0 else delayBetween (config s) * 1000)\<rparr>],
          nextHandle := Suc (nextHandle s), timerRef := Some (nextHandle s)\<rparr>)
   \<and> (appState s = WaitingForSend \<longrightarrow>
      handleResumeCampaign s =
        s\<lparr>campaignStatus := running,
          log := infoEntry (now s) ''Campaign resumed.'' # log s,
          timers := timers s @
            [\<lparr>handle = nextHandle s, callback = SendDelay (currentNumberIndex s),
              delay = sendActionDelay (config s) * 1000\<rparr>],
          nextHandle := Suc (nextHandle s), actionTimerRef := Some (nextHandle s)\<rparr>)"
  by (auto simp: handleResumeCampaign_eq resumedState_def processNextNumber_arm startSendAction_eq
        nextTimer_def sendTimer_def intro!: AppModel.equality)

text \<open>
  The amended C5 on the freshly mounted component, on the three-recipient campaign
  paused during its first send-delay, and on the same campaign paused right after its
  start.
\<close>

theorem resume_effect_witness:
  "appState mounted1 = Idle
   \<and> handleResumeCampaign mounted1 =
       mounted1\<lparr>campaignStatus := running,
                log := infoEntry (now mounted1) ''Campaign resumed.'' # log mounted1\<rparr>
   \<and> appState pausedInSend3 = WaitingForSend
   \<and> map delay (timers (handleResumeCampaign pausedInSend3)) = [5000]
   \<and> appState (handlePauseCampaign started3) = WaitingForNext
   \<and> currentNumberIndex (handlePauseCampaign started3)
       < length (numbers (config (handlePauseCampaign started3)))
   \<and> map delay (timers (handleResumeCampaign (handlePauseCampaign started3))) = [0]"
proof -
  have a: "appState mounted1 = Idle"
    by code_simp
  have b: "appState pausedInSend3 = WaitingForSend" "timers pausedInSend3 = []"
    "sendActionDelay (config pausedInSend3) = 5"
    by code_simp+
  have c: "appState (handlePauseCampaign started3) = WaitingForNext"
    "currentNumberIndex (handlePauseCampaign started3)
       < length (numbers (config (handlePauseCampaign started3)))"
    "timers (handlePauseCampaign started3) = []"
    "currentNumberIndex (handlePauseCampaign started3) = 0"
    by code_simp+
  from resume_effect [of mounted1] a
  have 1: "handleResumeCampaign mounted1 =
       mounted1\<lparr>campaignStatus := running,
                log := infoEntry (now mounted1) ''Campaign resumed.'' # log mounted1\<rparr>"
    by blast
  from resume_effect [of pausedInSend3] b(1)
  have 2: "map delay (timers (handleResumeCampaign pausedInSend3)) = [5000]"
    by (simp add: b)
  from resume_effect [of "handlePauseCampaign started3"] c(1,2)
  have 3: "map delay (timers (handleResumeCampaign (handlePauseCampaign started3))) = [0]"
    by (simp add: c)
  from a b(1) c(1,2) 1 2 3 show ?thesis by blast
qed

section \<open>C6: the uninterrupted run over three recipients\<close>

text \<open>One send cycle: the next-delay timer fires, then the send-delay timer.\<close>

lemma fires_cycle_next:
  assumes "timers s = [nextTimer (config s) i h]" "Suc i < length (numbers (config s))"
  shows "fires 2 s =
     s\<lparr>appState := WaitingForNext,
       log := monitorEntries s @ sentEntry i s # log s, currentNumberIndex := Suc i,
       timers := [nextTimer (config s) (Suc i) (Suc (nextHandle s))],
       nextHandle := Suc (Suc (nextHandle s)), timerRef := Some (Suc (nextHandle s)),
       actionTimerRef := Some (nextHandle s)\<rparr>"
  using assms
  by (intro AppModel.equality)
     (simp_all add: numeral_2_eq_2 timerFires_def runCallback_def startSendAction_eq
        sendActionFired_eq processNextNumber_arm monitorEntries_def sentEntry_def)

lemma fires_cycle_last:
  assumes "timers s = [nextTimer (config s) i h]" "length (numbers (config s)) \<le> Suc i"
  shows "fires 2 s =
     s\<lparr>appState := Finished, campaignStatus := finished,
       log := infoEntry (now s) ''Campaign finished.'' # monitorEntries s @ sentEntry i s # log s,
       currentNumberIndex := Suc i, timers := [],
       nextHandle := Suc (nextHandle s), timerRef := None, actionTimerRef := None\<rparr>"
  using assms
  by (intro AppModel.equality)
     (simp_all add: numeral_2_eq_2 timerFires_def runCallback_def startSendAction_eq
        sendActionFired_eq processNextNumber_finish monitorEntries_def sentEntry_def)

text \<open>
  C6 as stated counts exactly 4 entries tagged INFO or SUCCESS. The start entry, the
  three send entries and the finish entry are five: the run of the three-recipient
  campaign ends, after six timer fires, with these five entries in its log.
\<close>

theorem three_recipients_log_counterexample:
  "timers (fires 6 started3) = []
   \<and> campaignStatus (fires 6 started3) = finished
   \<and> map status (log (fires 6 started3)) = [INFO, SUCCESS, SUCCESS, SUCCESS, INFO]
   \<and> length (filter (\<lambda>e. status e = INFO \<or> status e = SUCCESS) (log (fires 6 started3))) = 5"
  by code_simp

text \<open>
  C6 (amended): for a configuration with exactly 3 recipients and no monitor recipient,
  the uninterrupted run from start to finish (six timer fires) creates exactly 5 log
  entries, all tagged INFO or SUCCESS: the start entry, one SUCCESS entry per recipient
  and the finish entry. The three SUCCESS entries carry template 1, template 2,
  template 1 in that order (even index: template 1, odd index: template 2). The log is
  kept newest first.
\<close>

theorem three_recipients_log:
  assumes "length (numbers (config s0)) = 3" and "monitorNumber (config s0) = []"
    and "timers s0 = []"
  shows "log (fires 6 (executeStartCampaign s0)) =
           [infoEntry (now s0) ''Campaign finished.'',
            sentEntry 2 s0, sentEntry 1 s0, sentEntry 0 s0,
            infoEntry (now s0) ''Campaign started.'']
       \<and> map (\<lambda>e. case data e of Some d \<Rightarrow> body d | None \<Rightarrow> None)
             (log (fires 6 (executeStartCampaign s0))) =
           [None, Some (message1 (config s0)), Some (message2 (config s0)),
            Some (message1 (config s0)), None]
       \<and> length (filter (\<lambda>e. status e = INFO \<or> status e = SUCCESS)
             (log (fires 6 (executeStartCampaign s0)))) = 5
       \<and> timers (fires 6 (executeStartCampaign s0)) = []
       \<and> campaignStatus (fires 6 (executeStartCampaign s0)) = finished
       \<and> appState (fires 6 (executeStartCampaign s0)) = Finished
       \<and> currentNumberIndex (fires 6 (executeStartCampaign s0)) = 3"
proof -
  let ?a = "executeStartCampaign s0"
  have a: "?a = s0\<lparr>log := [infoEntry (now s0) ''Campaign started.''], currentNumberIndex := 0,
       campaignStatus := running, appState := WaitingForNext,
       timers := [nextTimer (config s0) 0 (nextHandle s0)],
       nextHandle := Suc (nextHandle s0), timerRef := Some (nextHandle s0)\<rparr>"
    using assms
    by (intro AppModel.equality)
       (simp_all add: executeStartCampaign_eq startedState_def processNextNumber_arm)
  have f6: "fires 6 ?a = fires 2 (fires 2 (fires 2 ?a))"
    by (simp add: eval_nat_numeral)
  let ?b = "fires 2 ?a"
  have b: "?b = s0\<lparr>log := [sentEntry 0 s0, infoEntry (now s0) ''Campaign started.''],
       currentNumberIndex := 1,
       campaignStatus := running, appState := WaitingForNext,
       timers := [nextTimer (config s0) 1 (Suc (Suc (nextHandle s0)))],
       nextHandle := Suc (Suc (Suc (nextHandle s0))), timerRef := Some (Suc (Suc (nextHandle s0))),
       actionTimerRef := Some (Suc (nextHandle s0))\<rparr>"
    unfolding a using assms
    by (subst fires_cycle_next [where i = 0 and h = "nextHandle s0"], simp, simp,
        intro AppModel.equality)
       (simp_all add: monitorEntries_def sentEntry_def)
  let ?c = "fires 2 ?b"
  have c: "?c = s0\<lparr>log := [sentEntry 1 s0, sentEntry 0 s0, infoEntry (now s0) ''Campaign started.''],
       currentNumberIndex := 2,
       campaignStatus := running, appState := WaitingForNext,
       timers := [nextTimer (config s0) 2 (Suc (Suc (Suc (Suc (nextHandle s0)))))],
       nextHandle := Suc (Suc (Suc (Suc (Suc (nextHandle s0))))),
       timerRef := Some (Suc (Suc (Suc (Suc (nextHandle s0))))),
       actionTimerRef := Some (Suc (Suc (Suc (nextHandle s0))))\<rparr>"
    unfolding b using assms
    by (subst fires_cycle_next [where i = 1 and h = "Suc (Suc (nextHandle s0))"], simp, simp,
        intro AppModel.equality)
       (simp_all add: monitorEntries_def sentEntry_def numeral_2_eq_2)
  let ?d = "fires 2 ?c"
  have d: "?d = s0\<lparr>log := [infoEntry (now s0) ''Campaign finished.'',
            sentEntry 2 s0, sentEntry 1 s0, sentEntry 0 s0, infoEntry (now s0) ''Campaign started.''],
       currentNumberIndex := 3,
       campaignStatus := finished, appState := Finished,
       timers := [],
       nextHandle := Suc (Suc (Suc (Suc (Suc (Suc (nextHandle s0)))))),
       timerRef := None, actionTimerRef := None\<rparr>"
    unfolding c using assms
    by (subst fires_cycle_last [where i = 2 and h = "Suc (Suc (Suc (Suc (nextHandle s0))))"],
        simp, simp, intro AppModel.equality)
       (simp_all add: monitorEntries_def sentEntry_def)
  show ?thesis
    unfolding f6 d by (simp add: infoEntry_def sentEntry_def)
qed

text \<open>The amended C6 on the three-recipient configuration.\<close>

theorem three_recipients_log_witness:
  "length (numbers (config (mounted demo3 ''09:00:00''))) = 3
   \<and> monitorNumber (config (mounted demo3 ''09:00:00'')) = []
   \<and> timers (mounted demo3 ''09:00:00'') = []
   \<and> length (filter (\<lambda>e. status e = INFO \<or> status e = SUCCESS)
         (log (fires 6 (executeStartCampaign (mounted demo3 ''09:00:00''))))) = 5
   \<and> campaignStatus (fires 6 (executeStartCampaign (mounted demo3 ''09:00:00''))) = finished"
proof -
  have h: "length (numbers (config (mounted demo3 ''09:00:00''))) = 3"
    "monitorNumber (config (mounted demo3 ''09:00:00'')) = []"
    "timers (mounted demo3 ''09:00:00'') = []"
    by code_simp+
  from three_recipients_log [OF h] h show ?thesis
    by blast
qed

section \<open>C7: pause followed by resume\<close>

lemma spliced_init: "spliced base ins base (ins @ base)"
  unfolding spliced_def by (rule exI [of _ "[]"]) simp

lemma spliced_Cons: "spliced base ins l l' \<Longrightarrow> spliced base ins (x # l) (x # l')"
  unfolding spliced_def by (metis append_Cons)

lemma spliced_append: "spliced base ins l l' \<Longrightarrow> spliced base ins (xs @ l) (xs @ l')"
  by (induction xs) (simp_all add: spliced_Cons)

lemma twinD:
  assumes "twin base ins s s'"
  shows "orderly s" "orderly s'" "config s' = config s" "appState s' = appState s"
    "campaignStatus s' = campaignStatus s" "currentNumberIndex s' = currentNumberIndex s"
    "now s' = now s" "spliced base ins (log s) (log s')"
  using assms by (simp_all add: twin_def)

lemma twin_entries:
  assumes "twin base ins s s'"
  shows "sentEntry i s' = sentEntry i s" "monitorEntries s' = monitorEntries s"
    "skipEntry s' = skipEntry s"
  using twinD(3,6,7) [OF assms] by (simp_all add: sentEntry_def monitorEntries_def skipEntry_def)

lemma twin_timers:
  assumes "twin base ins s s'"
  shows "map callback (timers s') = map callback (timers s)
         \<and> map delay (timers s') = map delay (timers s)"
proof (cases "campaignStatus s = running")
  case False
  with twinD [OF assms] orderly_not_running [of s] orderly_not_running [of s']
  show ?thesis by simp
next
  case True
  note t = twinD [OF assms]
  from t(1) True show ?thesis
  proof (cases rule: orderly_running)
    case (waitingNext h)
    from t(2) True t(5) have "campaignStatus s' = running" by simp
    with t(2) show ?thesis
    proof (cases rule: orderly_running)
      case (waitingNext h')
      with \<open>timers s = [nextTimer (config s) (currentNumberIndex s) h]\<close> t(3,6)
      show ?thesis by (simp add: nextTimer_def)
    next
      case (waitingSend h')
      with \<open>appState s = WaitingForNext\<close> t(4) show ?thesis by simp
    qed
  next
    case (waitingSend h)
    from t(2) True t(5) have "campaignStatus s' = running" by simp
    with t(2) show ?thesis
    proof (cases rule: orderly_running)
      case (waitingNext h')
      with \<open>appState s = WaitingForSend\<close> t(4) show ?thesis by simp
    next
      case (waitingSend h')
      with \<open>timers s = [sendTimer (config s) (currentNumberIndex s) h]\<close> t(3,6)
      show ?thesis by (simp add: sendTimer_def)
    qed
  qed
qed

lemma twin_permitted:
  assumes "twin base ins s s'" "permitted e s"
  shows "permitted e s'"
proof -
  note t = twinD [OF assms(1)]
  from twin_timers [OF assms(1)] have len: "length (timers s') = length (timers s)"
    using map_eq_imp_length_eq by blast
  show ?thesis
  proof (cases e)
    case (TimerFires n)
    with assms(2) len show ?thesis by simp
  next
    case Skip
    with assms(2) have ws: "appState s = WaitingForSend" and "sendDelayOutstanding s" by simp_all
    then have "timers s \<noteq> []" by (auto simp: sendDelayOutstanding_def split: option.splits)
    with t(1) orderly_not_running have "campaignStatus s = running" by blast
    with t(5) have "campaignStatus s' = running" by simp
    with t(2) have "sendDelayOutstanding s'"
    proof (cases rule: orderly_running)
      case (waitingNext h')
      with ws t(4) show ?thesis by simp
    next
      case (waitingSend h')
      then show ?thesis by (simp add: sendDelayOutstanding_def)
    qed
    with ws t(4) Skip show ?thesis by simp
  qed (use assms(2) t(5) in simp_all)
qed

lemma twin_running:
  assumes "twin base ins s s'" "campaignStatus s = running"
  obtains (waitingNext) h h' where
      "appState s = WaitingForNext" "appState s' = WaitingForNext"
      "timers s = [nextTimer (config s) (currentNumberIndex s) h]"
      "timers s' = [nextTimer (config s) (currentNumberIndex s) h']"
      "currentNumberIndex s < length (numbers (config s))"
  | (waitingSend) h h' where
      "appState s = WaitingForSend" "appState s' = WaitingForSend"
      "timers s = [sendTimer (config s) (currentNumberIndex s) h]"
      "timers s' = [sendTimer (config s) (currentNumberIndex s) h']"
      "actionTimerRef s = Some h" "actionTimerRef s' = Some h'"
      "currentNumberIndex s < length (numbers (config s))"
proof -
  note t = twinD [OF assms(1)]
  from t(5) assms(2) have r': "campaignStatus s' = running" by simp
  from t(1) assms(2) show ?thesis
  proof (cases rule: orderly_running)
    case n: (waitingNext h)
    from t(2) r' show ?thesis
    proof (cases rule: orderly_running)
      case (waitingNext h')
      with n t(3,6) show ?thesis by (intro that(1) [of h h']) simp_all
    next
      case (waitingSend h')
      with n t(4) show ?thesis by simp
    qed
  next
    case n: (waitingSend h)
    from t(2) r' show ?thesis
    proof (cases rule: orderly_running)
      case (waitingNext h')
      with n t(4) show ?thesis by simp
    next
      case (waitingSend h')
      with n t(3,6) show ?thesis by (intro that(2) [of h h']) simp_all
    qed
  qed
qed

lemma entries_timers [simp]:
  "sentEntry i (s\<lparr>timers := ts\<rparr>) = sentEntry i s"
  "monitorEntries (s\<lparr>timers := ts\<rparr>) = monitorEntries s"
  by (simp_all add: sentEntry_def monitorEntries_def)

lemma twinI:
  assumes "orderly s" "orderly s'" "config s' = config s" "appState s' = appState s"
    "campaignStatus s' = campaignStatus s" "currentNumberIndex s' = currentNumberIndex s"
    "now s' = now s" "spliced base ins (log s) (log s')"
  shows "twin base ins s s'"
  using assms by (simp add: twin_def)

lemma twin_fire:
  assumes "twin base ins s s'" "n < length (timers s)"
  shows "twin base ins (timerFires n s) (timerFires n s')"
proof -
  note t = twinD [OF assms(1)]
  from twin_permitted [OF assms(1), of "TimerFires n"] assms(2)
  have n': "n < length (timers s')" by simp
  note o = orderly_fire [OF t(1) assms(2)] orderly_fire [OF t(2) n']
  from t(1) assms(2) orderly_not_running have "campaignStatus s = running" by fastforce
  with assms(1) show ?thesis
  proof (cases rule: twin_running)
    case (waitingNext h h')
    with assms(2) have "n = 0" by simp
    with waitingNext t(3-) show ?thesis
      by (intro twinI o) (simp_all add: timerFires_def runCallback_def startSendAction_eq)
  next
    case (waitingSend h h')
    with assms(2) have n0: "n = 0" by simp
    note e = twin_entries [OF assms(1)]
    show ?thesis
    proof (cases "Suc (currentNumberIndex s) < length (numbers (config s))")
      case True
      with waitingSend t(3-) n0 e show ?thesis
        by (intro twinI o)
           (simp_all add: timerFires_def runCallback_def sendActionFired_eq processNextNumber_arm
              spliced_append spliced_Cons)
    next
      case False
      with waitingSend t(3-) n0 e show ?thesis
        by (intro twinI o)
           (simp_all add: timerFires_def runCallback_def sendActionFired_eq
              processNextNumber_finish spliced_append spliced_Cons)
    qed
  qed
qed

lemma twin_skip:
  assumes "twin base ins s s'" "permitted Skip s"
  shows "twin base ins (handleSkipNumber s) (handleSkipNumber s')"
proof -
  note t = twinD [OF assms(1)]
  note o = orderly_skip [OF t(1) assms(2)] orderly_skip [OF t(2) twin_permitted [OF assms]]
  note e = twin_entries [OF assms(1)]
  show ?thesis
  proof (cases "Suc (currentNumberIndex s) < length (numbers (config s))")
    case True
    with t(3-) e show ?thesis
      by (intro twinI o)
         (simp_all add: handleSkipNumber_eq processNextNumber_arm spliced_Cons)
  next
    case False
    with t(3-) e show ?thesis
      by (intro twinI o)
         (simp_all add: handleSkipNumber_eq processNextNumber_finish spliced_Cons)
  qed
qed

lemma twin_pause:
  assumes "twin base ins s s'" "permitted Pause s"
  shows "twin base ins (handlePauseCampaign s) (handlePauseCampaign s')"
proof -
  note t = twinD [OF assms(1)]
  note o = orderly_pause [OF t(1) assms(2)] orderly_pause [OF t(2) twin_permitted [OF assms]]
  from t(3-) show ?thesis
    by (intro twinI o) (simp_all add: handlePauseCampaign_eq spliced_Cons)
qed

lemma twin_stop:
  assumes "twin base ins s s'" "permitted Stop s"
  shows "twin base ins (handleStopCampaign s) (handleStopCampaign s')"
proof -
  note t = twinD [OF assms(1)]
  note o = orderly_stop [OF t(1) assms(2)] orderly_stop [OF t(2) twin_permitted [OF assms]]
  from t(3-) show ?thesis
    by (intro twinI o) (simp_all add: handleStopCampaign_eq spliced_Cons)
qed

lemma twin_resume:
  assumes "twin base ins s s'" "permitted Resume s"
  shows "twin base ins (handleResumeCampaign s) (handleResumeCampaign s')"
proof -
  note t = twinD [OF assms(1)]
  note o = orderly_resume [OF t(1) assms(2)] orderly_resume [OF t(2) twin_permitted [OF assms]]
  from assms(2) have "campaignStatus s = paused" by simp
  note p = orderly_paused [OF t(1) this]
  from p have "appState s = WaitingForNext \<or> appState s = WaitingForSend" by simp
  then show ?thesis
  proof
    assume "appState s = WaitingForNext"
    with p t(3-) show ?thesis
      by (intro twinI o)
         (simp_all add: handleResumeCampaign_eq resumedState_def processNextNumber_arm spliced_Cons)
  next
    assume "appState s = WaitingForSend"
    with p t(3-) show ?thesis
      by (intro twinI o)
         (simp_all add: handleResumeCampaign_eq resumedState_def startSendAction_eq spliced_Cons)
  qed
qed

lemma twin_clock:
  assumes "twin base ins s s'"
  shows "twin base ins (s\<lparr>now := t\<rparr>) (s'\<lparr>now := t\<rparr>)"
  using twinD [OF assms] by (intro twinI orderly_clock) simp_all

lemma twin_step:
  assumes "twin base ins s s'" "permitted e s"
  shows "twin base ins (step e s) (step e s')"
  using assms
  by (cases e) (simp_all add: twin_fire twin_skip twin_pause twin_stop twin_resume twin_clock)

lemma twin_exec:
  "twin base ins s s' \<Longrightarrow> permitted_run es s \<Longrightarrow>
   permitted_run es s' \<and> twin base ins (exec es s) (exec es s')"
proof (induction es arbitrary: s s')
  case Nil
  then show ?case by simp
next
  case (Cons e es)
  from Cons.prems have e: "permitted e s" and r: "permitted_run es (step e s)" by simp_all
  from Cons.IH [OF twin_step [OF Cons.prems(1) e] r] twin_permitted [OF Cons.prems(1) e]
  show ?case by simp
qed

lemma twin_pause_resume:
  assumes "orderly s" "campaignStatus s = running"
  shows "twin (log s)
           [infoEntry (now s) ''Campaign resumed.'', infoEntry (now s) ''Campaign paused.'']
           s (handleResumeCampaign (handlePauseCampaign s))"
proof -
  from assms(2) have p: "permitted Pause s" by simp
  have r: "permitted Resume (handlePauseCampaign s)"
    by (simp add: handlePauseCampaign_eq)
  note o = assms(1) orderly_resume [OF orderly_pause [OF assms(1) p] r]
  have sp: "spliced (log s)
      [infoEntry (now s) ''Campaign resumed.'', infoEntry (now s) ''Campaign paused.'']
      (log s) (infoEntry (now s) ''Campaign resumed.'' # infoEntry (now s) ''Campaign paused.'' # log s)"
    using spliced_init [of "log s" "[infoEntry (now s) ''Campaign resumed.'', infoEntry (now s) ''Campaign paused.'']"]
    by simp
  from assms show ?thesis
  proof (cases rule: orderly_running)
    case (waitingNext h)
    with assms(2) sp show ?thesis
      by (intro twinI o)
         (simp_all add: handleResumeCampaign_eq resumedState_def handlePauseCampaign_eq
            processNextNumber_arm)
  next
    case (waitingSend h)
    with assms(2) sp show ?thesis
      by (intro twinI o)
         (simp_all add: handleResumeCampaign_eq resumedState_def handlePauseCampaign_eq
            startSendAction_eq)
  qed
qed

text \<open>
  C7 as stated has the paused-and-resumed campaign end with the same sequence of log
  entries as the campaign that never paused. Pause and resume each write an entry: the
  one-recipient campaign ends with three entries, and with five when it is paused and
  resumed right after its start.
\<close>

theorem pause_resume_same_log_counterexample:
  "campaignStatus started1 = running
   \<and> campaignStatus (fires 2 started1) = finished
   \<and> campaignStatus (fires 2 (handleResumeCampaign (handlePauseCampaign started1))) = finished
   \<and> map message (log (fires 2 started1))
       = [''Campaign finished.'', ''Message presumed SENT to 201.'', ''Campaign started.'']
   \<and> map message (log (fires 2 (handleResumeCampaign (handlePauseCampaign started1))))
       = [''Campaign finished.'', ''Message presumed SENT to 201.'', ''Campaign resumed.'',
          ''Campaign paused.'', ''Campaign started.'']"
  by code_simp

text \<open>
  C7 (amended): for every running state of a campaign (reached by timer fires and
  permitted controls), pause immediately followed by resume leaves phase, status and
  position as they were, registers the outstanding delay anew with the same callback and
  its full configured duration, and puts exactly two INFO entries ("Campaign paused.",
  "Campaign resumed.") on the log. Every later run of timer fires, clock changes and
  permitted controls is then permitted in the resumed state as well, leads to the same
  phase, status, position and outstanding delay, and adds the same log entries: the
  eventual log is that of never pausing with those two entries inserted.
\<close>

theorem pause_resume_inserts_two_entries:
  assumes "quiescent s0" and "permitted_run es (executeStartCampaign s0)"
    and "s = exec es (executeStartCampaign s0)" and "campaignStatus s = running"
    and "permitted_run later s"
  shows "permitted_run later (handleResumeCampaign (handlePauseCampaign s))
     \<and> appState (exec later (handleResumeCampaign (handlePauseCampaign s)))
         = appState (exec later s)
     \<and> campaignStatus (exec later (handleResumeCampaign (handlePauseCampaign s)))
         = campaignStatus (exec later s)
     \<and> currentNumberIndex (exec later (handleResumeCampaign (handlePauseCampaign s)))
         = currentNumberIndex (exec later s)
     \<and> map callback (timers (exec later (handleResumeCampaign (handlePauseCampaign s))))
         = map callback (timers (exec later s))
     \<and> map delay (timers (exec later (handleResumeCampaign (handlePauseCampaign s))))
         = map delay (timers (exec later s))
     \<and> (\<exists>new. log (exec later s) = new @ log s
            \<and> log (exec later (handleResumeCampaign (handlePauseCampaign s)))
                = new @ infoEntry (now s) ''Campaign resumed.''
                      # infoEntry (now s) ''Campaign paused.'' # log s)"
proof -
  from assms(1-3) have o: "orderly s"
    by (simp add: orderly_exec orderly_start)
  from twin_exec [OF twin_pause_resume [OF o assms(4)] assms(5)]
  have p: "permitted_run later (handleResumeCampaign (handlePauseCampaign s))"
    and t: "twin (log s)
           [infoEntry (now s) ''Campaign resumed.'', infoEntry (now s) ''Campaign paused.'']
           (exec later s) (exec later (handleResumeCampaign (handlePauseCampaign s)))"
    by simp_all
  from p twinD(4,5,6,8) [OF t] twin_timers [OF t] show ?thesis
    by (simp add: spliced_def)
qed

text \<open>
  The amended C7 on the three-recipient campaign during the send-delay of its first
  recipient, followed by a send, a clock change, a next-delay and a skip.
\<close>

theorem pause_resume_inserts_two_entries_witness:
  "quiescent (mounted demo3 ''09:00:00'')
   \<and> permitted_run [TimerFires 0] (executeStartCampaign (mounted demo3 ''09:00:00''))
   \<and> campaignStatus (exec [TimerFires 0] (executeStartCampaign (mounted demo3 ''09:00:00'')))
       = running
   \<and> permitted_run [TimerFires 0, ClockReads ''09:00:20'', TimerFires 0, Skip]
        (exec [TimerFires 0] (executeStartCampaign (mounted demo3 ''09:00:00'')))
   \<and> permitted_run [TimerFires 0, ClockReads ''09:00:20'', TimerFires 0, Skip]
        (handleResumeCampaign (handlePauseCampaign
           (exec [TimerFires 0] (executeStartCampaign (mounted demo3 ''09:00:00'')))))
   \<and> currentNumberIndex
        (exec [TimerFires 0, ClockReads ''09:00:20'', TimerFires 0, Skip]
           (handleResumeCampaign (handlePauseCampaign
              (exec [TimerFires 0] (executeStartCampaign (mounted demo3 ''09:00:00''))))))
       = currentNumberIndex
        (exec [TimerFires 0, ClockReads ''09:00:20'', TimerFires 0, Skip]
           (exec [TimerFires 0] (executeStartCampaign (mounted demo3 ''09:00:00''))))"
proof -
  have q: "quiescent (mounted demo3 ''09:00:00'')"
    by code_simp
  have p: "permitted_run [TimerFires 0] (executeStartCampaign (mounted demo3 ''09:00:00''))"
    by code_simp
  have r: "campaignStatus (exec [TimerFires 0] (executeStartCampaign (mounted demo3 ''09:00:00'')))
       = running"
    by code_simp
  have l: "permitted_run [TimerFires 0, ClockReads ''09:00:20'', TimerFires 0, Skip]
        (exec [TimerFires 0] (executeStartCampaign (mounted demo3 ''09:00:00'')))"
    by code_simp
  from pause_resume_inserts_two_entries [OF q p refl r l] q p r l show ?thesis
    by blast
qed

section \<open>C8: validation\<close>

lemma is_space_iff: "is_space c \<longleftrightarrow> spec_white_space c"
proof -
  have e: "c = d \<longleftrightarrow> (of_char c :: nat) = of_char d" for d
    by (simp add: of_char_eq_iff)
  show ?thesis
    unfolding is_space_def spec_white_space_def by (simp add: e)
qed

lemma trim_blank: "trim s = [] \<longleftrightarrow> spec_blank s"
proof
  assume "trim s = []"
  then have a: "\<forall>x\<in>set (dropWhile is_space s). is_space x"
    by (simp add: trim_def dropWhile_eq_Nil_conv)
  have "dropWhile is_space s = []"
  proof (rule ccontr)
    assume n: "dropWhile is_space s \<noteq> []"
    then have "\<not> is_space (hd (dropWhile is_space s))"
      by (rule hd_dropWhile)
    moreover from n have "hd (dropWhile is_space s) \<in> set (dropWhile is_space s)"
      by simp
    ultimately show False using a by blast
  qed
  then show "spec_blank s"
    by (simp add: dropWhile_eq_Nil_conv spec_blank_def list_all_iff is_space_iff)
next
  assume "spec_blank s"
  then have "dropWhile is_space s = []"
    by (simp add: dropWhile_eq_Nil_conv spec_blank_def list_all_iff is_space_iff)
  then show "trim s = []"
    by (simp add: trim_def del: dropWhile_eq_Nil_conv)
qed

lemma digits_to_end_iff: "digits_to_end cs \<longleftrightarrow> cs \<noteq> [] \<and> list_all is_digit cs"
  by (induction cs rule: digits_to_end.induct) auto

lemma phone_test_iff: "phone_test s \<longleftrightarrow> spec_phone_like s"
  by (cases s) (auto simp: spec_phone_like_def digits_to_end_iff)

lemma update_not_Nil [simp]: "AList.update k v es \<noteq> []"
  by (cases es) auto
lemma list_ex_phone: "list_ex (\<lambda>n. \<not> phone_test n) ns = list_ex (\<lambda>n. \<not> spec_phone_like n) ns"
  by (simp add: phone_test_iff)

lemma newErrors_Nil: "newErrors cfg = [] \<longleftrightarrow> \<not> spec_rejects cfg"
  by (simp add: newErrors_def Let_def trim_blank phone_test_iff spec_rejects_def)

lemma newErrors_messages:
  "''messages'' \<in> fst ` set (newErrors cfg) \<longleftrightarrow> spec_blank (message1 cfg) \<and> spec_blank (message2 cfg)"
  by (auto simp: newErrors_def Let_def trim_blank dom_update)

lemma newErrors_numbers:
  "''numbers'' \<in> fst ` set (newErrors cfg)
     \<longleftrightarrow> numbers cfg = [] \<or> list_ex (\<lambda>n. \<not> spec_phone_like n) (numbers cfg)"
  by (auto simp: newErrors_def Let_def list_ex_phone dom_update)

lemma newErrors_delayBetween:
  "''delayBetween'' \<in> fst ` set (newErrors cfg) \<longleftrightarrow> delayBetween cfg \<le> 0"
  by (auto simp: newErrors_def Let_def dom_update)

lemma newErrors_sendActionDelay:
  "''sendActionDelay'' \<in> fst ` set (newErrors cfg) \<longleftrightarrow> sendActionDelay cfg \<le> 0"
  by (auto simp: newErrors_def Let_def dom_update)

lemma newErrors_monitorNumber:
  "''monitorNumber'' \<in> fst ` set (newErrors cfg)
     \<longleftrightarrow> monitorNumber cfg \<noteq> [] \<and> \<not> spec_phone_like (monitorNumber cfg)"
  by (auto simp: newErrors_def Let_def phone_test_iff dom_update)

text \<open>
  C8: \<^verbatim>\<open>validateConfig\<close> rejects exactly when at least one of the listed conditions
  holds: both templates blank after trimming, the recipient list empty or with an entry
  that does not match the phone-number pattern, \<open>delayBetween \<le> 0\<close>,
  \<open>sendActionDelay \<le> 0\<close>, or a monitor recipient that is present and does not match
  the pattern. The error set it stores is empty exactly when it accepts and is keyed by
  the offending fields. \<^verbatim>\<open>handleStartCampaign\<close> never changes status, phase or timers,
  shows that same error set, and opens the confirmation dialog, the only way to the
  start of a run, exactly when validation accepts.
\<close>

theorem validation_rejects_exactly:
  "(fst (validateConfig s) = False) =
     ((spec_blank (message1 (config s)) \<and> spec_blank (message2 (config s)))
      \<or> numbers (config s) = []
      \<or> list_ex (\<lambda>n. \<not> spec_phone_like n) (numbers (config s))
      \<or> delayBetween (config s) \<le> 0
      \<or> sendActionDelay (config s) \<le> 0
      \<or> (monitorNumber (config s) \<noteq> [] \<and> \<not> spec_phone_like (monitorNumber (config s))))
   \<and> (errors (snd (validateConfig s)) = []) = fst (validateConfig s)
   \<and> (''messages'' \<in> fst ` set (errors (snd (validateConfig s))))
       = (spec_blank (message1 (config s)) \<and> spec_blank (message2 (config s)))
   \<and> (''numbers'' \<in> fst ` set (errors (snd (validateConfig s))))
       = (numbers (config s) = [] \<or> list_ex (\<lambda>n. \<not> spec_phone_like n) (numbers (config s)))
   \<and> (''delayBetween'' \<in> fst ` set (errors (snd (validateConfig s))))
       = (delayBetween (config s) \<le> 0)
   \<and> (''sendActionDelay'' \<in> fst ` set (errors (snd (validateConfig s))))
       = (sendActionDelay (config s) \<le> 0)
   \<and> (''monitorNumber'' \<in> fst ` set (errors (snd (validateConfig s))))
       = (monitorNumber (config s) \<noteq> [] \<and> \<not> spec_phone_like (monitorNumber (config s)))
   \<and> campaignStatus (handleStartCampaign s) = campaignStatus s
   \<and> appState (handleStartCampaign s) = appState s
   \<and> timers (handleStartCampaign s) = timers s
   \<and> isConfirmationOpen (handleStartCampaign s)
       = (fst (validateConfig s) \<or> isConfirmationOpen s)
   \<and> errors (handleStartCampaign s) = errors (snd (validateConfig s))
   \<and> errors (snd (validateConfig s)) = newErrors (config s)"
proof -
  have v: "validateConfig s = (newErrors (config s) = [], s\<lparr>errors := newErrors (config s)\<rparr>)"
    by (simp add: validateConfig_def Let_def)
  have h: "handleStartCampaign s =
             (if newErrors (config s) = []
              then s\<lparr>errors := newErrors (config s), isConfirmationOpen := True\<rparr>
              else s\<lparr>errors := newErrors (config s)\<rparr>)"
    by (simp add: handleStartCampaign_def v)
  show ?thesis
    unfolding h v
    by (simp add: newErrors_Nil newErrors_messages newErrors_numbers newErrors_delayBetween
          newErrors_sendActionDelay newErrors_monitorNumber spec_rejects_def)
qed

text \<open>
  C8 on a configuration that is rejected, whose blank template contains a no-break
  space, and on one that is accepted.
\<close>

theorem validation_rejects_exactly_witness:
  "fst (validateConfig (mounted demoBad ''09:00:00'')) = False
   \<and> ''messages'' \<in> fst ` set (errors (snd (validateConfig (mounted demoBad ''09:00:00''))))
   \<and> ''numbers'' \<in> fst ` set (errors (snd (validateConfig (mounted demoBad ''09:00:00''))))
   \<and> isConfirmationOpen (handleStartCampaign (mounted demoBad ''09:00:00'')) = False
   \<and> fst (validateConfig (mounted demo3 ''09:00:00'')) = True
   \<and> isConfirmationOpen (handleStartCampaign (mounted demo3 ''09:00:00'')) = True"
proof -
  have a: "list_ex (\<lambda>n. \<not> spec_phone_like n) (numbers (config (mounted demoBad ''09:00:00'')))"
    "isConfirmationOpen (mounted demoBad ''09:00:00'') = False"
    "spec_blank (message1 (config (mounted demoBad ''09:00:00'')))"
    "spec_blank (message2 (config (mounted demoBad ''09:00:00'')))"
    by code_simp+
  have b: "\<not> (spec_blank (message1 (config (mounted demo3 ''09:00:00'')))
              \<and> spec_blank (message2 (config (mounted demo3 ''09:00:00''))))"
    "numbers (config (mounted demo3 ''09:00:00'')) \<noteq> []"
    "\<not> list_ex (\<lambda>n. \<not> spec_phone_like n) (numbers (config (mounted demo3 ''09:00:00'')))"
    "\<not> delayBetween (config (mounted demo3 ''09:00:00'')) \<le> 0"
    "\<not> sendActionDelay (config (mounted demo3 ''09:00:00'')) \<le> 0"
    "monitorNumber (config (mounted demo3 ''09:00:00'')) = []"
    by code_simp+
  from validation_rejects_exactly [of "mounted demoBad ''09:00:00''"] a
  have 1: "fst (validateConfig (mounted demoBad ''09:00:00'')) = False
   \<and> ''messages'' \<in> fst ` set (errors (snd (validateConfig (mounted demoBad ''09:00:00''))))
   \<and> ''numbers'' \<in> fst ` set (errors (snd (validateConfig (mounted demoBad ''09:00:00''))))
   \<and> isConfirmationOpen (handleStartCampaign (mounted demoBad ''09:00:00'')) = False"
    by blast
  from validation_rejects_exactly [of "mounted demo3 ''09:00:00''"] b
  have 2: "fst (validateConfig (mounted demo3 ''09:00:00'')) = True
   \<and> isConfirmationOpen (handleStartCampaign (mounted demo3 ''09:00:00'')) = True"
    by blast
  from 1 2 show ?thesis by blast
qed

section \<open>C9: the frame of updateDeliveryStatus\<close>

text \<open>
  C9: \<^verbatim>\<open>handleUpdateDeliveryStatus\<close> changes nothing but the log, keeps its length,
  leaves every entry at an index other than \<open>k\<close> as it is, and at index \<open>k\<close> keeps
  timestamp, message and status tag; when the entry at \<open>k\<close> carries a payload, only
  the delivery status of the payload changes; when it carries none, or when \<open>k\<close> is
  not an index of the log, the whole state is unchanged.
\<close>

theorem updateDeliveryStatus_frame:
  "length (log (handleUpdateDeliveryStatus k ns s)) = length (log s)
   \<and> handleUpdateDeliveryStatus k ns s = s\<lparr>log := log (handleUpdateDeliveryStatus k ns s)\<rparr>
   \<and> (\<forall>j < length (log s). int j \<noteq> k \<longrightarrow>
          log (handleUpdateDeliveryStatus k ns s) ! j = log s ! j)
   \<and> (\<forall>j < length (log s). int j = k \<longrightarrow>
          timestamp (log (handleUpdateDeliveryStatus k ns s) ! j) = timestamp (log s ! j)
        \<and> message (log (handleUpdateDeliveryStatus k ns s) ! j) = message (log s ! j)
        \<and> status (log (handleUpdateDeliveryStatus k ns s) ! j) = status (log s ! j)
        \<and> (case data (log s ! j) of
             Some d \<Rightarrow> data (log (handleUpdateDeliveryStatus k ns s) ! j)
                         = Some (d\<lparr>deliveryStatus := Some ns\<rparr>)
           | None \<Rightarrow> handleUpdateDeliveryStatus k ns s = s))
   \<and> ((k < 0 \<or> int (length (log s)) \<le> k) \<longrightarrow> handleUpdateDeliveryStatus k ns s = s)"
proof (intro conjI allI impI)
  show "length (log (handleUpdateDeliveryStatus k ns s)) = length (log s)"
    by (simp add: handleUpdateDeliveryStatus_def updateLog_def)
  show "handleUpdateDeliveryStatus k ns s = s\<lparr>log := log (handleUpdateDeliveryStatus k ns s)\<rparr>"
    by (simp add: handleUpdateDeliveryStatus_def)
next
  fix j
  assume "j < length (log s)" "int j \<noteq> k"
  then show "log (handleUpdateDeliveryStatus k ns s) ! j = log s ! j"
    by (auto simp: handleUpdateDeliveryStatus_def updateLog_def)
next
  fix j
  assume j: "j < length (log s)" "int j = k"
  then have at_k: "log (handleUpdateDeliveryStatus k ns s) ! j = updateEntry ns (log s ! j)"
    by (auto simp: handleUpdateDeliveryStatus_def updateLog_def)
  show "timestamp (log (handleUpdateDeliveryStatus k ns s) ! j) = timestamp (log s ! j)"
    "message (log (handleUpdateDeliveryStatus k ns s) ! j) = message (log s ! j)"
    "status (log (handleUpdateDeliveryStatus k ns s) ! j) = status (log s ! j)"
    unfolding at_k by (simp_all add: updateEntry_def split: option.splits)
  show "case data (log s ! j) of
          Some d \<Rightarrow> data (log (handleUpdateDeliveryStatus k ns s) ! j)
                      = Some (d\<lparr>deliveryStatus := Some ns\<rparr>)
        | None \<Rightarrow> handleUpdateDeliveryStatus k ns s = s"
  proof (cases "data (log s ! j)")
    case None
    with j show ?thesis
      by (auto simp: handleUpdateDeliveryStatus_def updateLog_def updateEntry_def)
  next
    case (Some d)
    with at_k show ?thesis
      by (simp add: updateEntry_def)
  qed
next
  assume "k < 0 \<or> int (length (log s)) \<le> k"
  then show "handleUpdateDeliveryStatus k ns s = s"
    by (auto simp: handleUpdateDeliveryStatus_def updateLog_def)
qed

text \<open>
  C9 on the log of the finished one-recipient campaign: index 1 holds the SUCCESS entry,
  index 0 the finish entry, which has no payload.
\<close>

theorem updateDeliveryStatus_frame_witness:
  "1 < length (log finished1)
   \<and> data (log finished1 ! 1) =
        Some \<lparr>number = Some ''201'', outcome = Some SENT, body = Some ''Hello'',
              attachment = None, deliveryStatus = Some Pending\<rparr>
   \<and> data (log (handleUpdateDeliveryStatus 1 Read finished1) ! 1) =
        Some \<lparr>number = Some ''201'', outcome = Some SENT, body = Some ''Hello'',
              attachment = None, deliveryStatus = Some Read\<rparr>
   \<and> timestamp (log (handleUpdateDeliveryStatus 1 Read finished1) ! 1)
        = timestamp (log finished1 ! 1)
   \<and> log (handleUpdateDeliveryStatus 1 Read finished1) ! 0 = log finished1 ! 0
   \<and> data (log finished1 ! 0) = None
   \<and> handleUpdateDeliveryStatus 0 Read finished1 = finished1"
proof -
  have a: "1 < length (log finished1)" "0 < length (log finished1)"
    "data (log finished1 ! 1) =
        Some \<lparr>number = Some ''201'', outcome = Some SENT, body = Some ''Hello'',
              attachment = None, deliveryStatus = Some Pending\<rparr>"
    "data (log finished1 ! 0) = None"
    by code_simp+
  from updateDeliveryStatus_frame [of 1 Read finished1] a
  have 1: "data (log (handleUpdateDeliveryStatus 1 Read finished1) ! 1) =
        Some \<lparr>number = Some ''201'', outcome = Some SENT, body = Some ''Hello'',
              attachment = None, deliveryStatus = Some Read\<rparr>
   \<and> timestamp (log (handleUpdateDeliveryStatus 1 Read finished1) ! 1)
        = timestamp (log finished1 ! 1)
   \<and> log (handleUpdateDeliveryStatus 1 Read finished1) ! 0 = log finished1 ! 0"
    by simp
  from updateDeliveryStatus_frame [of 0 Read finished1] a
  have 2: "handleUpdateDeliveryStatus 0 Read finished1 = finished1"
    by simp
  from a 1 2 show ?thesis by blast
qed

section \<open>C10: a skipped entry accepts a delivery status\<close>

text \<open>
  C10: the one entry skip puts on the log (followed only by the finish entry when the
  list is exhausted) is tagged SKIPPED and carries a payload with the recipient number
  and the outcome SKIPPED and no delivery status. Wherever that entry later sits in the
  log, \<^verbatim>\<open>handleUpdateDeliveryStatus\<close> on its index is not a no-op: it sets the
  delivery status in the payload of the skipped entry.
\<close>

theorem skipped_entry_accepts_delivery_status:
  "log (handleSkipNumber s) =
       (if Suc (currentNumberIndex s) < length (numbers (config s)) then []
        else [infoEntry (now s) ''Campaign finished.'']) @ skipEntry s # log s
   \<and> status (skipEntry s) = SKIPPED
   \<and> data (skipEntry s) =
        Some \<lparr>number = at_index (numbers (config s)) (currentNumberIndex s),
              outcome = Some SKIPPED_outcome, body = None, attachment = None,
              deliveryStatus = None\<rparr>
   \<and> (\<forall>u k. k < length (log u) \<and> log u ! k = skipEntry s \<longrightarrow>
        log (handleUpdateDeliveryStatus (int k) ns u) ! k =
          (skipEntry s)\<lparr>data :=
             Some \<lparr>number = at_index (numbers (config s)) (currentNumberIndex s),
                   outcome = Some SKIPPED_outcome, body = None, attachment = None,
                   deliveryStatus = Some ns\<rparr>\<rparr>
        \<and> handleUpdateDeliveryStatus (int k) ns u \<noteq> u)"
proof -
  have 1: "log (handleSkipNumber s) =
       (if Suc (currentNumberIndex s) < length (numbers (config s)) then []
        else [infoEntry (now s) ''Campaign finished.'']) @ skipEntry s # log s"
    by (cases "Suc (currentNumberIndex s) < length (numbers (config s))")
       (simp_all add: handleSkipNumber_eq processNextNumber_arm processNextNumber_finish)
  have 2: "log (handleUpdateDeliveryStatus (int k) ns u) ! k =
          (skipEntry s)\<lparr>data :=
             Some \<lparr>number = at_index (numbers (config s)) (currentNumberIndex s),
                   outcome = Some SKIPPED_outcome, body = None, attachment = None,
                   deliveryStatus = Some ns\<rparr>\<rparr>"
    if "k < length (log u)" "log u ! k = skipEntry s" for u k
    using that
    by (simp add: handleUpdateDeliveryStatus_def updateLog_def updateEntry_def skipEntry_def)
  have 3: "handleUpdateDeliveryStatus (int k) ns u \<noteq> u"
    if "k < length (log u)" "log u ! k = skipEntry s" for u k
  proof
    assume "handleUpdateDeliveryStatus (int k) ns u = u"
    with 2 [OF that] that(2) show False by (simp add: skipEntry_def)
  qed
  from 1 2 3 show ?thesis by (simp add: skipEntry_def)
qed

text \<open>
  C10 on the three-recipient campaign, skipped during the send-delay of its first
  recipient.
\<close>

theorem skipped_entry_accepts_delivery_status_witness:
  "0 < length (log (handleSkipNumber sending3))
   \<and> log (handleSkipNumber sending3) ! 0 = skipEntry sending3
   \<and> log (handleUpdateDeliveryStatus (int 0) Delivered (handleSkipNumber sending3)) ! 0 =
          (skipEntry sending3)\<lparr>data :=
             Some \<lparr>number = at_index (numbers (config sending3)) (currentNumberIndex sending3),
                   outcome = Some SKIPPED_outcome, body = None, attachment = None,
                   deliveryStatus = Some Delivered\<rparr>\<rparr>
   \<and> number (the (data (skipEntry sending3))) = Some ''+201''"
proof -
  have a: "0 < length (log (handleSkipNumber sending3))"
    "log (handleSkipNumber sending3) ! 0 = skipEntry sending3"
    "number (the (data (skipEntry sending3))) = Some ''+201''"
    by code_simp+
  from skipped_entry_accepts_delivery_status [of sending3 Delivered] a show ?thesis
    by blast
qed

end
